theory Spec2Isabelle
  imports Main "HOL-Library.Sublist" "HOL-Library.Char_ord" "HOL-Library.List_Lexorder"
begin

section \<open>The data model of \<open>js/data-processor.js\<close>\<close>

text \<open>
  The module joins two parsed JSON arrays (tag records and relation records) into nodes
  and links. JavaScript strings are modelled as \<open>string\<close>, one \<open>char\<close> per code unit
  (code units below 256). The numbers that hold relation ids are doubles with an integer
  value: they are modelled as the \<open>int\<close> they denote, \<open>parseInt\<close> rounds to the nearest
  double, and the conversion of a number to a string prints a double. A result that is
  no finite number (\<open>NaN\<close>, \<open>Infinity\<close>) is \<open>None\<close> of \<open>int option\<close>; \<open>undefined\<close> is \<open>None\<close> of
  an option type. The elements of the two arrays are records of the types below; an
  array with an element of another shape is not an input of the model.
\<close>

datatype json = JNull | JBool bool | JNum int | JStr string
  | JArr "json list" | JObj "(string \<times> json) list"

record tag_record =
  tag_id :: string
  tag_name :: string
  src_dataset :: string
  dst_dataset :: string
  relation_ids :: "string list"
  tenant_id :: string
  is_deleted :: bool

record relation_record =
  r_id :: int
  src_table :: string
  dst_table :: string
  r_type :: string
  r_direction :: json
  r_condition :: json

record node =
  n_id :: string
  n_name :: string
  n_type :: string
  n_relations :: "int list"

record link =
  l_id :: string
  source :: node
  target :: node
  relationId :: int
  tagIds :: "string list"
  tagNames :: "string list"
  color :: "string option"
  l_type :: string
  l_direction :: json
  l_condition :: json
  l_srcTable :: string
  l_dstTable :: string
  offset :: nat

text \<open>The object returned by \<open>getAllData\<close> and \<open>getDataByTenant\<close>.\<close>

record graph_data =
  nodes :: "node list"
  links :: "link list"
  colorMap :: "string \<rightharpoonup> string"

text \<open>The instance state of class \<open>DataProcessor\<close>: the three fields above and three more.\<close>

record DataProcessor = graph_data +
  tags :: "tag_record list"
  relations :: "relation_record list"
  relationMap :: "int \<rightharpoonup> relation_record"

datatype error = FetchError string | SyntaxError | TypeError

text \<open>
  What a \<open>fetch\<close> of one of the two files gives: a response whose \<open>ok\<close> is false; a body
  that is no JSON text; the body \<open>null\<close>; a body that parses to some other value that is
  not an array of objects (a number, a string, a boolean, an object, or an array with a
  \<open>null\<close> element); or an array of records.
\<close>

datatype 'a response = NotOk | BadJson | ParsedNull | ParsedMalformed | Parsed 'a


definition constructor :: DataProcessor where
  "constructor = \<lparr>nodes = [], links = [], colorMap = Map.empty,
     tags = [], relations = [], relationMap = Map.empty\<rparr>"

section \<open>Library behaviour the module relies on\<close>

subsection \<open>\<open>Array.prototype.forEach\<close> with a body that may throw\<close>

fun forEach :: "('a \<Rightarrow> 's \<Rightarrow> error + 's) \<Rightarrow> 'a list \<Rightarrow> 's \<Rightarrow> error + 's" where
  "forEach f [] s = Inr s"
| "forEach f (x # xs) s = (case f x s of Inl e \<Rightarrow> Inl e | Inr s' \<Rightarrow> forEach f xs s')"

subsection \<open>\<open>Set\<close>: insertion order, no duplicates\<close>

definition Set_add :: "'a \<Rightarrow> 'a list \<Rightarrow> 'a list" where
  "Set_add x xs = (if x \<in> set xs then xs else xs @ [x])"

definition new_Set :: "'a list \<Rightarrow> 'a list" where
  "new_Set xs = fold Set_add xs []"

subsection \<open>\<open>String.prototype.split\<close> on a one-character separator\<close>

fun split :: "char \<Rightarrow> string \<Rightarrow> string list" where
  "split sep [] = [Nil]"
| "split sep (c # cs) =
     (if c = sep then [] # split sep cs
      else (case split sep cs of p # ps \<Rightarrow> (c # p) # ps | [] \<Rightarrow> [c] # []))"

subsection \<open>Doubles with an integer value\<close>

text \<open>
  The nearest double of a natural number, ties to the even significand; \<open>None\<close> where the
  result is \<open>Infinity\<close>. Below \<open>2 ^ 53\<close> every integer is a double.
\<close>

function bitlen :: "int \<Rightarrow> nat" where
  "bitlen n = (if n \<le> 0 then 0 else Suc (bitlen (n div 2)))"
  by pat_completeness auto
termination
  by (relation "measure nat") auto

declare bitlen.simps [simp del]

definition round_double :: "int \<Rightarrow> int option" where
  "round_double m =
     (if m < 2 ^ 53 then Some m
      else
        (let e = bitlen m - 53;
             q = m div 2 ^ e;
             r = m mod 2 ^ e;
             half = 2 ^ (e - 1);
             q' = (if half < r \<or> (r = half \<and> odd q) then q + 1 else q);
             v = q' * 2 ^ e
         in if v < 2 ^ 1024 then Some v else None))"

subsection \<open>\<open>parseInt\<close> with no radix argument\<close>

text \<open>
  Leading white space is skipped, then an optional sign, then an optional \<open>0x\<close> or \<open>0X\<close>
  that selects radix 16; the longest prefix of digits of the radix is read, and what
  follows it is ignored. With no digit the result is \<open>NaN\<close>; otherwise it is the double
  nearest to the integer read (the engines round correctly; the standard allows them an
  approximation from the 21st significant digit on).
\<close>

definition isWhiteSpace :: "char \<Rightarrow> bool" where
  "isWhiteSpace c \<longleftrightarrow> (of_char c :: nat) \<in> {9, 10, 11, 12, 13, 32, 160}"

definition digitValue :: "char \<Rightarrow> int" where
  "digitValue c =
     (let k = (of_char c :: int) in
      if 48 \<le> k \<and> k \<le> 57 then k - 48
      else if 97 \<le> k \<and> k \<le> 122 then k - 87
      else if 65 \<le> k \<and> k \<le> 90 then k - 55
      else 36)"

definition isDigit :: "int \<Rightarrow> char \<Rightarrow> bool" where
  "isDigit R c \<longleftrightarrow> digitValue c < R"

definition parseInt :: "string \<Rightarrow> int option" where
  "parseInt inputString =
     (let S = dropWhile isWhiteSpace inputString;
          sign = (if S \<noteq> [] \<and> hd S = CHR ''-'' then - 1 else 1 :: int);
          S1 = (if S \<noteq> [] \<and> (hd S = CHR ''+'' \<or> hd S = CHR ''-'') then tl S else S);
          hex = (take 2 S1 = ''0x'' \<or> take 2 S1 = ''0X'');
          R = (if hex then 16 else 10 :: int);
          S2 = (if hex then drop 2 S1 else S1);
          Z = takeWhile (isDigit R) S2
      in if Z = [] then None
         else (case round_double (foldl (\<lambda>a c. a * R + digitValue c) 0 Z) of
                 None \<Rightarrow> None
               | Some v \<Rightarrow> Some (sign * v)))"

subsection \<open>The string of a number, as a template literal inserts it\<close>

text \<open>
  \<open>Number.prototype.toString\<close> on a double with an integer value. Below \<open>2 ^ 53\<close> it is the
  decimal numeral. From there on it is made of the fewest significant digits \<open>s\<close> such
  that \<open>s * 10 ^ p\<close> still rounds to the number (the closest such \<open>s\<close>, the even one of two
  equally close), followed by \<open>p\<close> zeros up to 21 digits in all, and in exponent form
  beyond.
\<close>

function digits :: "int \<Rightarrow> string" where
  "digits n =
     (if n < 10 then [char_of (48 + n)]
      else digits (n div 10) @ [char_of (48 + n mod 10)])"
  by pat_completeness auto
termination
  by (relation "measure nat") auto

declare digits.simps [simp del]

definition candidates :: "int \<Rightarrow> nat \<Rightarrow> (int \<times> nat) list" where
  "candidates x k =
     [(s, p).
        n \<leftarrow> [length (digits x), length (digits x) + 1], k \<le> n,
        p \<leftarrow> [n - k],
        s \<leftarrow> [x div 10 ^ p, x div 10 ^ p + 1],
        10 ^ (k - 1) \<le> s, s < 10 ^ k, round_double (s * 10 ^ p) = Some x]"

definition distance :: "int \<Rightarrow> int \<times> nat \<Rightarrow> int" where
  "distance x c = \<bar>fst c * 10 ^ snd c - x\<bar>"

fun closest :: "int \<Rightarrow> (int \<times> nat) list \<Rightarrow> (int \<times> nat) option" where
  "closest x [] = None"
| "closest x (c # cs) =
     (case closest x cs of
        None \<Rightarrow> Some c
      | Some c' \<Rightarrow>
          if distance x c < distance x c' \<or> (distance x c = distance x c' \<and> even (fst c))
          then Some c else Some c')"

definition shortest :: "int \<Rightarrow> int \<times> nat" where
  "shortest x =
     (case List.map_filter (\<lambda>k. closest x (candidates x k)) [1..<18] of
        c # _ \<Rightarrow> c
      | [] \<Rightarrow> (x, 0))"

definition format :: "int \<times> nat \<Rightarrow> string" where
  "format c =
     (let ds = digits (fst c); n = length ds + snd c
      in if n \<le> 21 then ds @ replicate (snd c) CHR ''0''
         else (if length ds = 1 then ds else hd ds # CHR ''.'' # tl ds) @ ''e+'' @
              digits (int n - 1))"

definition toString_nat :: "int \<Rightarrow> string" where
  "toString_nat x = (if x < 2 ^ 53 then digits x else format (shortest x))"

definition toString :: "int \<Rightarrow> string" where
  "toString n = (if n < 0 then CHR ''-'' # toString_nat (- n) else toString_nat n)"

section \<open>The methods of \<open>DataProcessor\<close>\<close>

definition extractTableName :: "string \<Rightarrow> string" where
  "extractTableName fullTableName = last (split CHR ''.'' fullTableName)"

subsection \<open>\<open>assignColors\<close>\<close>

definition colors :: "string list" where
  "colors =
     [''#FF6B6B'', ''#4ECDC4'', ''#45B7D1'', ''#96CEB4'', ''#FFEAA7'',
      ''#DDA0DD'', ''#98D8C8'', ''#F7DC6F'', ''#BB8FCE'', ''#85C1E9'',
      ''#F8C471'', ''#82E0AA'', ''#F1948A'', ''#85C1E9'', ''#D7BDE2'',
      ''#A9DFBF'', ''#F9E79F'', ''#D5A6BD'', ''#A3E4D7'', ''#FADBD8'']"

definition uniqueTags :: "tag_record list \<Rightarrow> string list" where
  "uniqueTags ts = new_Set (map tag_name ts)"

definition assignColors :: "DataProcessor \<Rightarrow> DataProcessor" where
  "assignColors this =
     this\<lparr>colorMap :=
       fold (\<lambda>(index, tagName) cm. cm(tagName \<mapsto> colors ! (index mod length colors)))
         (enumerate 0 (uniqueTags (tags this))) (colorMap this)\<rparr>"

subsection \<open>\<open>buildNodes\<close>\<close>

text \<open>
  The local \<open>nodeMap\<close> is a \<open>Map\<close> from table name to node object, read back with
  \<open>Array.from(nodeMap.values())\<close>: the list of its values in insertion order, each node
  stored under its own \<open>id\<close>.
\<close>

definition nodeMap_has :: "node list \<Rightarrow> string \<Rightarrow> bool" where
  "nodeMap_has nodeMap k \<longleftrightarrow> k \<in> set (map n_id nodeMap)"

definition nodeMap_ensure :: "string \<Rightarrow> node list \<Rightarrow> node list" where
  "nodeMap_ensure table nodeMap =
     (if nodeMap_has nodeMap table then nodeMap
      else nodeMap @ [\<lparr>n_id = table, n_name = table, n_type = ''table'', n_relations = []\<rparr>])"

definition nodeMap_push :: "string \<Rightarrow> int \<Rightarrow> node list \<Rightarrow> node list" where
  "nodeMap_push table rid nodeMap =
     map (\<lambda>n. if n_id n = table then n\<lparr>n_relations := n_relations n @ [rid]\<rparr> else n) nodeMap"

definition node_step :: "relation_record \<Rightarrow> node list \<Rightarrow> node list" where
  "node_step relation nodeMap =
     (let srcTable = extractTableName (src_table relation);
          dstTable = extractTableName (dst_table relation)
      in nodeMap_push dstTable (r_id relation)
           (nodeMap_push srcTable (r_id relation)
              (nodeMap_ensure dstTable (nodeMap_ensure srcTable nodeMap))))"

definition buildNodes :: "DataProcessor \<Rightarrow> DataProcessor" where
  "buildNodes this = this\<lparr>nodes := fold node_step (relations this) []\<rparr>"

subsection \<open>\<open>buildLinks\<close>\<close>

record link_state =
  st_links :: "link list"
  processedRelations :: "int set"
  edgeCounts :: "string \<rightharpoonup> nat"

definition relatedTags :: "DataProcessor \<Rightarrow> string \<Rightarrow> tag_record list" where
  "relatedTags this entry =
     filter (\<lambda>t. \<not> is_deleted t \<and> entry \<in> set (relation_ids t)) (tags this)"

definition nextOffset :: "string \<Rightarrow> string \<Rightarrow> (string \<rightharpoonup> nat) \<Rightarrow> nat \<times> (string \<rightharpoonup> nat)" where
  "nextOffset srcTable dstTable ec =
     (let edgeKey = srcTable @ ''-'' @ dstTable;
          reverseEdgeKey = dstTable @ ''-'' @ srcTable
      in case ec edgeKey of
           Some c \<Rightarrow> (c, ec(edgeKey \<mapsto> c + 1))
         | None \<Rightarrow>
             (case ec reverseEdgeKey of
                Some c \<Rightarrow> (c, ec(reverseEdgeKey \<mapsto> c + 1))
              | None \<Rightarrow> (0, ec(edgeKey \<mapsto> 1))))"

definition make_link ::
  "DataProcessor \<Rightarrow> int \<Rightarrow> relation_record \<Rightarrow> node \<Rightarrow> node \<Rightarrow> tag_record list \<Rightarrow>
   tag_record \<Rightarrow> nat \<Rightarrow> link" where
  "make_link this numericRelationId relation srcNode dstNode related primaryTag off =
     \<lparr>l_id = ''relation-'' @ toString numericRelationId,
      source = srcNode,
      target = dstNode,
      relationId = numericRelationId,
      tagIds = map tag_id related,
      tagNames = map tag_name related,
      color = colorMap this (tag_name primaryTag),
      l_type = r_type relation,
      l_direction = r_direction relation,
      l_condition = r_condition relation,
      l_srcTable = src_table relation,
      l_dstTable = dst_table relation,
      offset = off\<rparr>"

text \<open>
  The body of the inner \<open>forEach\<close>. Every \<open>return\<close> leaves the state as it is; reading
  \<open>primaryTag.tag_name\<close> when \<open>relatedTags\<close> is empty throws a \<open>TypeError\<close>.
\<close>

definition link_step :: "DataProcessor \<Rightarrow> string \<Rightarrow> link_state \<Rightarrow> error + link_state" where
  "link_step this entry st =
     (case parseInt entry of
        None \<Rightarrow> Inr st
      | Some numericRelationId \<Rightarrow>
          if numericRelationId \<in> processedRelations st then Inr st
          else
            (case relationMap this numericRelationId of
               None \<Rightarrow> Inr st
             | Some relation \<Rightarrow>
                 (let srcTable = extractTableName (src_table relation);
                      dstTable = extractTableName (dst_table relation)
                  in case (find (\<lambda>node. n_id node = srcTable) (nodes this),
                           find (\<lambda>node. n_id node = dstTable) (nodes this)) of
                       (Some srcNode, Some dstNode) \<Rightarrow>
                         (let (off, ec) = nextOffset srcTable dstTable (edgeCounts st)
                          in case relatedTags this entry of
                               [] \<Rightarrow> Inl TypeError
                             | primaryTag # _ \<Rightarrow>
                                 Inr \<lparr>st_links = st_links st @
                                        [make_link this numericRelationId relation srcNode dstNode
                                           (relatedTags this entry) primaryTag off],
                                      processedRelations =
                                        insert numericRelationId (processedRelations st),
                                      edgeCounts = ec\<rparr>)
                     | _ \<Rightarrow> Inr st)))"

definition tag_step :: "DataProcessor \<Rightarrow> tag_record \<Rightarrow> link_state \<Rightarrow> error + link_state" where
  "tag_step this tag st =
     (if is_deleted tag then Inr st else forEach (link_step this) (relation_ids tag) st)"

definition buildLinks :: "DataProcessor \<Rightarrow> error + DataProcessor" where
  "buildLinks this =
     (case forEach (tag_step this) (tags this)
             \<lparr>st_links = [], processedRelations = {}, edgeCounts = Map.empty\<rparr> of
        Inl e \<Rightarrow> Inl e
      | Inr st \<Rightarrow> Inr (this\<lparr>links := st_links st\<rparr>))"

subsection \<open>\<open>processData\<close> and \<open>loadData\<close>\<close>

definition processData :: "DataProcessor \<Rightarrow> error + DataProcessor" where
  "processData this =
     buildLinks (buildNodes (assignColors
       (this\<lparr>relationMap :=
          fold (\<lambda>relation m. m(r_id relation \<mapsto> relation)) (relations this) (relationMap this)\<rparr>)))"

text \<open>
  The two \<open>fetch\<close> calls are the parameters. Reading \<open>this.tags.length\<close> or
  \<open>this.relations.length\<close> throws on \<open>null\<close>; \<open>this.relations.forEach\<close> in \<open>processData\<close> and
  \<open>this.tags.map\<close> in \<open>assignColors\<close> throw on the other values that are not arrays of
  objects. The \<open>catch\<close> block writes the error to the console and rethrows it.
\<close>

definition loadData ::
  "tag_record list response \<Rightarrow> relation_record list response \<Rightarrow> DataProcessor \<Rightarrow>
   error + DataProcessor" where
  "loadData tagsResponse relationsResponse this =
     (case tagsResponse of
        NotOk \<Rightarrow> Inl (FetchError ''tags'')
      | BadJson \<Rightarrow> Inl SyntaxError
      | ParsedNull \<Rightarrow> Inl TypeError
      | ParsedMalformed \<Rightarrow>
          (case relationsResponse of
             NotOk \<Rightarrow> Inl (FetchError ''relations'')
           | BadJson \<Rightarrow> Inl SyntaxError
           | _ \<Rightarrow> Inl TypeError)
      | Parsed ts \<Rightarrow>
          (case relationsResponse of
             NotOk \<Rightarrow> Inl (FetchError ''relations'')
           | BadJson \<Rightarrow> Inl SyntaxError
           | ParsedNull \<Rightarrow> Inl TypeError
           | ParsedMalformed \<Rightarrow> Inl TypeError
           | Parsed rs \<Rightarrow> processData (this\<lparr>tags := ts, relations := rs\<rparr>)))"

subsection \<open>What the methods write to the console\<close>







subsection \<open>\<open>getAllData\<close>, \<open>getDataByTenant\<close>, \<open>getAvailableTenants\<close>\<close>

definition getAllData :: "DataProcessor \<Rightarrow> graph_data" where
  "getAllData this = \<lparr>nodes = nodes this, links = links this, colorMap = colorMap this\<rparr>"

text \<open>
  The argument is \<open>None\<close> for an absent (\<open>undefined\<close>) tenant id; \<open>!tenantId\<close> holds of
  it and of the empty string. The three local \<open>Set\<close>s are lists in insertion order. The
  result is returned together with the instance state after the call.
\<close>

definition getDataByTenant :: "string option \<Rightarrow> DataProcessor \<Rightarrow> graph_data \<times> DataProcessor" where
  "getDataByTenant tenantId this =
     (if tenantId = None \<or> tenantId = Some [] then (getAllData this, this)
      else
        (let filteredTags =
               filter (\<lambda>tag. \<not> is_deleted tag \<and> Some (tenant_id tag) = tenantId) (tags this);
             relatedRelationIds =
               fold (\<lambda>tag s. fold (\<lambda>i. Set_add (parseInt i)) (relation_ids tag) s)
                 filteredTags [];
             filteredRelations =
               List.map_filter (\<lambda>i. case i of None \<Rightarrow> None | Some n \<Rightarrow> relationMap this n)
                 relatedRelationIds;
             relatedTables =
               fold (\<lambda>relation s.
                       Set_add (extractTableName (dst_table relation))
                         (Set_add (extractTableName (src_table relation)) s))
                 filteredRelations [];
             filteredNodes = filter (\<lambda>node. n_id node \<in> set relatedTables) (nodes this);
             filteredLinks =
               filter (\<lambda>link. Some (relationId link) \<in> set relatedRelationIds) (links this)
         in (\<lparr>nodes = filteredNodes, links = filteredLinks, colorMap = colorMap this\<rparr>, this)))"

text \<open>
  \<open>Array.prototype.sort\<close> with no comparator orders strings by their code units, which is
  the order of \<open>string\<close> here; on the distinct elements of a \<open>Set\<close> the sorted array is
  unique, so \<open>sort\<close> gives it.
\<close>

definition getAvailableTenants :: "DataProcessor \<Rightarrow> string list" where
  "getAvailableTenants this =
     sort (fold (\<lambda>tag tenants.
                   if \<not> is_deleted tag \<and> tenant_id tag \<noteq> [] then Set_add (tenant_id tag) tenants
                   else tenants)
             (tags this) [])"

section \<open>Predicates used in the proofs\<close>

text \<open>The entries of \<open>relation_ids\<close> that the two nested loops of \<open>buildLinks\<close> visit, in order.\<close>

definition entries :: "tag_record list \<Rightarrow> string list" where
  "entries ts = concat (map relation_ids (filter (\<lambda>t. \<not> is_deleted t) ts))"

text \<open>A relation id for which \<open>buildLinks\<close> reaches the creation of a link.\<close>

definition buildable :: "DataProcessor \<Rightarrow> int \<Rightarrow> bool" where
  "buildable this n \<longleftrightarrow>
     (case relationMap this n of
        None \<Rightarrow> False
      | Some r \<Rightarrow>
          find (\<lambda>node. n_id node = extractTableName (src_table r)) (nodes this) \<noteq> None \<and>
          find (\<lambda>node. n_id node = extractTableName (dst_table r)) (nodes this) \<noteq> None)"

text \<open>
  What holds of a link once it is built: it was made from the relation of its id and the
  two nodes found for that relation, at the first visited entry that \<open>parseInt\<close> reads as
  its id, with the tags related to that entry.
\<close>

definition link_ok :: "DataProcessor \<Rightarrow> string list \<Rightarrow> link \<Rightarrow> bool" where
  "link_ok this es l \<longleftrightarrow>
     (\<exists>e r a b p ps off.
        find (\<lambda>e. parseInt e = Some (relationId l)) es = Some e \<and>
        relationMap this (relationId l) = Some r \<and>
        find (\<lambda>node. n_id node = extractTableName (src_table r)) (nodes this) = Some a \<and>
        find (\<lambda>node. n_id node = extractTableName (dst_table r)) (nodes this) = Some b \<and>
        relatedTags this e = p # ps \<and>
        l = make_link this (relationId l) r a b (p # ps) p off)"

text \<open>
  The invariant of the loop after the entries \<open>es\<close>: the processed ids are the ids of the
  links, no id has two links, every visited id that can be built has been, and every link
  is as above.
\<close>

definition link_inv :: "DataProcessor \<Rightarrow> string list \<Rightarrow> link_state \<Rightarrow> bool" where
  "link_inv this es st \<longleftrightarrow>
     processedRelations st = relationId ` set (st_links st) \<and>
     distinct (map relationId (st_links st)) \<and>
     (\<forall>e\<in>set es. \<forall>n. parseInt e = Some n \<longrightarrow> buildable this n \<longrightarrow> n \<in> processedRelations st) \<and>
     (\<forall>l\<in>set (st_links st). link_ok this es l)"

text \<open>The state in which \<open>buildLinks\<close> enters its loop.\<close>

definition init_state :: link_state where
  "init_state = \<lparr>st_links = [], processedRelations = {}, edgeCounts = Map.empty\<rparr>"

text \<open>The state on which \<open>processData\<close> calls \<open>buildLinks\<close>.\<close>

definition prepared :: "DataProcessor \<Rightarrow> DataProcessor" where
  "prepared this =
     buildNodes (assignColors
       (this\<lparr>relationMap :=
          fold (\<lambda>relation m. m(r_id relation \<mapsto> relation)) (relations this) (relationMap this)\<rparr>))"

text \<open>The body of the loop of \<open>assignColors\<close>, and the loop on a given colour map.\<close>

definition paint :: "nat \<times> string \<Rightarrow> (string \<rightharpoonup> string) \<Rightarrow> (string \<rightharpoonup> string)" where
  "paint = (\<lambda>(index, tagName) cm. cm(tagName \<mapsto> colors ! (index mod length colors)))"

definition painted :: "tag_record list \<Rightarrow> (string \<rightharpoonup> string) \<Rightarrow> (string \<rightharpoonup> string)" where
  "painted ts cm = fold paint (enumerate 0 (uniqueTags ts)) cm"

text \<open>Table names without the separator of the keys of \<open>edgeCounts\<close>.\<close>

definition hyphen_free :: "string \<Rightarrow> bool" where
  "hyphen_free s \<longleftrightarrow> CHR ''-'' \<notin> set s"

definition edgeKey :: "string \<Rightarrow> string \<Rightarrow> string" where
  "edgeKey s d = s @ ''-'' @ d"

text \<open>The offset that \<open>nextOffset\<close> reads for a pair of tables.\<close>

definition pairCount :: "(string \<rightharpoonup> nat) \<Rightarrow> string \<Rightarrow> string \<Rightarrow> nat" where
  "pairCount ec s d =
     (case ec (edgeKey s d) of
        Some c \<Rightarrow> c
      | None \<Rightarrow> (case ec (edgeKey d s) of Some c \<Rightarrow> c | None \<Rightarrow> 0))"

text \<open>A link joins the two named nodes, in either direction.\<close>

definition joins :: "string \<Rightarrow> string \<Rightarrow> link \<Rightarrow> bool" where
  "joins s d l \<longleftrightarrow>
     n_id (source l) = s \<and> n_id (target l) = d \<or> n_id (source l) = d \<and> n_id (target l) = s"

definition same_pair :: "link \<Rightarrow> link \<Rightarrow> bool" where
  "same_pair l l' = joins (n_id (source l)) (n_id (target l)) l'"

text \<open>Every offset counts the earlier links on the same pair of nodes.\<close>

definition offsets_ok :: "link list \<Rightarrow> bool" where
  "offsets_ok ls \<longleftrightarrow>
     (\<forall>i<length ls. offset (ls ! i) = length (filter (same_pair (ls ! i)) (take i ls)))"

definition hyphen_free_tables :: "DataProcessor \<Rightarrow> bool" where
  "hyphen_free_tables this \<longleftrightarrow>
     (\<forall>n r. relationMap this n = Some r \<longrightarrow>
        hyphen_free (extractTableName (src_table r)) \<and>
        hyphen_free (extractTableName (dst_table r)))"

text \<open>Of the two keys of a pair of different tables, at most one is in the counter map.\<close>

definition one_key :: "(string \<rightharpoonup> nat) \<Rightarrow> bool" where
  "one_key ec \<longleftrightarrow>
     (\<forall>s d. hyphen_free s \<longrightarrow> hyphen_free d \<longrightarrow> s \<noteq> d \<longrightarrow>
        ec (edgeKey s d) = None \<or> ec (edgeKey d s) = None)"

text \<open>The invariant of the loop for the offsets.\<close>

definition count_inv :: "link_state \<Rightarrow> bool" where
  "count_inv st \<longleftrightarrow>
     one_key (edgeCounts st) \<and>
     (\<forall>s d. hyphen_free s \<longrightarrow> hyphen_free d \<longrightarrow>
        pairCount (edgeCounts st) s d = length (filter (joins s d) (st_links st))) \<and>
     offsets_ok (st_links st)"

text \<open>The decimal numeral of a natural number, said without \<open>toString\<close>.\<close>

definition decimal_value :: "string \<Rightarrow> int" where
  "decimal_value ds = foldl (\<lambda>a c. 10 * a + (of_char c - 48)) 0 ds"

definition is_decimal_numeral :: "string \<Rightarrow> int \<Rightarrow> bool" where
  "is_decimal_numeral ds n \<longleftrightarrow>
     ds \<noteq> [] \<and> (\<forall>c\<in>set ds. 48 \<le> (of_char c :: int) \<and> (of_char c :: int) \<le> 57) \<and>
     (hd ds = CHR ''0'' \<longrightarrow> ds = ''0'') \<and> decimal_value ds = n"



section \<open>Concrete inputs\<close>

text \<open>
  The example of the specification (one tag on two relations between \<open>orders\<close> and
  \<open>customers\<close>) with the model built from it, and the inputs of the other closed
  theorems below.
\<close>

definition ex_tag :: tag_record where
  "ex_tag = \<lparr>tag_id = ''T1'', tag_name = ''a'', src_dataset = [], dst_dataset = [],
     relation_ids = [''1'', ''2''], tenant_id = ''x'', is_deleted = False\<rparr>"

definition ex_relation1 :: relation_record where
  "ex_relation1 = \<lparr>r_id = 1, src_table = ''s.orders'', dst_table = ''s.customers'',
     r_type = ''ONE_TO_MANY'', r_direction = JNull, r_condition = JNull\<rparr>"

definition ex_relation2 :: relation_record where
  "ex_relation2 = \<lparr>r_id = 2, src_table = ''s.orders'', dst_table = ''s.customers'',
     r_type = ''ONE_TO_ONE'', r_direction = JNull, r_condition = JNull\<rparr>"

definition ex_orders :: node where
  "ex_orders = \<lparr>n_id = ''orders'', n_name = ''orders'', n_type = ''table'', n_relations = [1, 2]\<rparr>"

definition ex_customers :: node where
  "ex_customers =
     \<lparr>n_id = ''customers'', n_name = ''customers'', n_type = ''table'', n_relations = [1, 2]\<rparr>"

definition ex_link1 :: link where
  "ex_link1 = \<lparr>l_id = ''relation-1'', source = ex_orders, target = ex_customers, relationId = 1,
     tagIds = [''T1''], tagNames = [''a''], color = Some ''#FF6B6B'', l_type = ''ONE_TO_MANY'',
     l_direction = JNull, l_condition = JNull, l_srcTable = ''s.orders'',
     l_dstTable = ''s.customers'', offset = 0\<rparr>"

definition ex_link2 :: link where
  "ex_link2 = \<lparr>l_id = ''relation-2'', source = ex_orders, target = ex_customers, relationId = 2,
     tagIds = [''T1''], tagNames = [''a''], color = Some ''#FF6B6B'', l_type = ''ONE_TO_ONE'',
     l_direction = JNull, l_condition = JNull, l_srcTable = ''s.orders'',
     l_dstTable = ''s.customers'', offset = 1\<rparr>"

definition ex_model :: DataProcessor where
  "ex_model = \<lparr>nodes = [ex_orders, ex_customers], links = [ex_link1, ex_link2],
     colorMap = [''a'' \<mapsto> ''#FF6B6B''],
     tags = [ex_tag], relations = [ex_relation1, ex_relation2],
     relationMap = [1 \<mapsto> ex_relation1, 2 \<mapsto> ex_relation2]\<rparr>"

definition cx_tag :: tag_record where
  "cx_tag = \<lparr>tag_id = ''T1'', tag_name = ''a'', src_dataset = [], dst_dataset = [],
     relation_ids = [''01''], tenant_id = ''x'', is_deleted = False\<rparr>"

definition cx_orders :: node where
  "cx_orders = \<lparr>n_id = ''orders'', n_name = ''orders'', n_type = ''table'', n_relations = [1]\<rparr>"

definition cx_customers :: node where
  "cx_customers =
     \<lparr>n_id = ''customers'', n_name = ''customers'', n_type = ''table'', n_relations = [1]\<rparr>"

definition cx_link :: link where
  "cx_link = \<lparr>l_id = ''relation-1'', source = cx_orders, target = cx_customers, relationId = 1,
     tagIds = [''T1''], tagNames = [''a''], color = Some ''#FF6B6B'', l_type = ''ONE_TO_MANY'',
     l_direction = JNull, l_condition = JNull, l_srcTable = ''s.orders'',
     l_dstTable = ''s.customers'', offset = 0\<rparr>"

definition cx_model :: DataProcessor where
  "cx_model = \<lparr>nodes = [cx_orders, cx_customers], links = [cx_link],
     colorMap = [''a'' \<mapsto> ''#FF6B6B''],
     tags = [cx_tag], relations = [ex_relation1],
     relationMap = [1 \<mapsto> ex_relation1]\<rparr>"


definition hy_relation1 :: relation_record where
  "hy_relation1 = \<lparr>r_id = 1, src_table = ''s.a-b'', dst_table = ''s.c'',
     r_type = ''ONE_TO_MANY'', r_direction = JNull, r_condition = JNull\<rparr>"

definition hy_relation2 :: relation_record where
  "hy_relation2 = \<lparr>r_id = 2, src_table = ''s.a'', dst_table = ''s.b-c'',
     r_type = ''ONE_TO_MANY'', r_direction = JNull, r_condition = JNull\<rparr>"

definition hy_node :: "string \<Rightarrow> int \<Rightarrow> node" where
  "hy_node table rid = \<lparr>n_id = table, n_name = table, n_type = ''table'', n_relations = [rid]\<rparr>"

definition hy_link1 :: link where
  "hy_link1 = \<lparr>l_id = ''relation-1'', source = hy_node ''a-b'' 1, target = hy_node ''c'' 1,
     relationId = 1, tagIds = [''T1''], tagNames = [''a''], color = Some ''#FF6B6B'',
     l_type = ''ONE_TO_MANY'', l_direction = JNull, l_condition = JNull,
     l_srcTable = ''s.a-b'', l_dstTable = ''s.c'', offset = 0\<rparr>"

definition hy_link2 :: link where
  "hy_link2 = \<lparr>l_id = ''relation-2'', source = hy_node ''a'' 2, target = hy_node ''b-c'' 2,
     relationId = 2, tagIds = [''T1''], tagNames = [''a''], color = Some ''#FF6B6B'',
     l_type = ''ONE_TO_MANY'', l_direction = JNull, l_condition = JNull,
     l_srcTable = ''s.a'', l_dstTable = ''s.b-c'', offset = 1\<rparr>"

definition hy_model :: DataProcessor where
  "hy_model = \<lparr>nodes = [hy_node ''a-b'' 1, hy_node ''c'' 1, hy_node ''a'' 2, hy_node ''b-c'' 2],
     links = [hy_link1, hy_link2], colorMap = [''a'' \<mapsto> ''#FF6B6B''],
     tags = [ex_tag], relations = [hy_relation1, hy_relation2],
     relationMap = [1 \<mapsto> hy_relation1, 2 \<mapsto> hy_relation2]\<rparr>"

definition named_tag :: "string \<Rightarrow> bool \<Rightarrow> tag_record" where
  "named_tag name deleted = \<lparr>tag_id = name, tag_name = name, src_dataset = [], dst_dataset = [],
     relation_ids = [], tenant_id = ''x'', is_deleted = deleted\<rparr>"

definition four_tags :: "tag_record list" where
  "four_tags = [named_tag ''a'' False, named_tag ''b'' True, named_tag ''a'' False,
     named_tag ''c'' False]"

definition fourteen_tags :: "tag_record list" where
  "fourteen_tags = map (\<lambda>name. named_tag name False)
     [''a'', ''b'', ''c'', ''d'', ''e'', ''f'', ''g'', ''h'', ''i'', ''j'', ''k'', ''l'', ''m'', ''n'']"

definition tenant_tags :: "tag_record list" where
  "tenant_tags = [named_tag ''n'' False\<lparr>tenant_id := ''t2''\<rparr>,
     named_tag ''n'' True\<lparr>tenant_id := ''t0''\<rparr>,
     named_tag ''n'' False\<lparr>tenant_id := ''''\<rparr>,
     named_tag ''n'' False\<lparr>tenant_id := ''t1''\<rparr>,
     named_tag ''n'' False\<lparr>tenant_id := ''t2''\<rparr>]"

definition twice_tag :: tag_record where
  "twice_tag = \<lparr>tag_id = ''T1'', tag_name = ''a'', src_dataset = [], dst_dataset = [],
     relation_ids = [''120'', ''120''], tenant_id = ''x'', is_deleted = False\<rparr>"

definition large_tag :: tag_record where
  "large_tag = \<lparr>tag_id = ''T2'', tag_name = ''b'', src_dataset = [], dst_dataset = [],
     relation_ids = [''120'', ''1000000000000000000000''], tenant_id = ''x'',
     is_deleted = False\<rparr>"

definition relation120 :: relation_record where
  "relation120 = \<lparr>r_id = 120, src_table = ''s.orders'', dst_table = ''s.customers'',
     r_type = ''ONE_TO_MANY'', r_direction = JNull, r_condition = JNull\<rparr>"

definition large_relation :: relation_record where
  "large_relation = \<lparr>r_id = 1000000000000000000000, src_table = ''s.customers'',
     dst_table = ''s.orders'', r_type = ''ONE_TO_ONE'', r_direction = JNull,
     r_condition = JNull\<rparr>"

definition large_input :: DataProcessor where
  "large_input = constructor\<lparr>tags := [twice_tag, large_tag],
     relations := [relation120, large_relation]\<rparr>"

definition tag_c :: tag_record where
  "tag_c = \<lparr>tag_id = ''TC'', tag_name = ''c'', src_dataset = [], dst_dataset = [],
     relation_ids = [''1''], tenant_id = ''x'', is_deleted = False\<rparr>"

definition tag_b :: tag_record where
  "tag_b = \<lparr>tag_id = ''TB'', tag_name = ''b'', src_dataset = [], dst_dataset = [],
     relation_ids = [''2''], tenant_id = ''x'', is_deleted = True\<rparr>"

definition tag_a :: tag_record where
  "tag_a = \<lparr>tag_id = ''TA'', tag_name = ''a'', src_dataset = [], dst_dataset = [],
     relation_ids = [''1'', ''2''], tenant_id = ''y'', is_deleted = False\<rparr>"

definition tag_d :: tag_record where
  "tag_d = \<lparr>tag_id = ''TD'', tag_name = ''d'', src_dataset = [], dst_dataset = [],
     relation_ids = [''2''], tenant_id = ''y'', is_deleted = False\<rparr>"

definition shared_link1 :: link where
  "shared_link1 = \<lparr>l_id = ''relation-1'', source = ex_orders, target = ex_customers,
     relationId = 1, tagIds = [''TC'', ''TA''], tagNames = [''c'', ''a''],
     color = Some ''#FF6B6B'', l_type = ''ONE_TO_MANY'', l_direction = JNull,
     l_condition = JNull, l_srcTable = ''s.orders'', l_dstTable = ''s.customers'',
     offset = 0\<rparr>"

definition shared_link2 :: link where
  "shared_link2 = \<lparr>l_id = ''relation-2'', source = ex_orders, target = ex_customers,
     relationId = 2, tagIds = [''TA'', ''TD''], tagNames = [''a'', ''d''],
     color = Some ''#45B7D1'', l_type = ''ONE_TO_ONE'', l_direction = JNull,
     l_condition = JNull, l_srcTable = ''s.orders'', l_dstTable = ''s.customers'',
     offset = 1\<rparr>"

definition shared_model :: DataProcessor where
  "shared_model = \<lparr>nodes = [ex_orders, ex_customers], links = [shared_link1, shared_link2],
     colorMap = [''c'' \<mapsto> ''#FF6B6B'', ''b'' \<mapsto> ''#4ECDC4'', ''a'' \<mapsto> ''#45B7D1'',
       ''d'' \<mapsto> ''#96CEB4''],
     tags = [tag_c, tag_b, tag_a, tag_d], relations = [ex_relation1, ex_relation2],
     relationMap = [1 \<mapsto> ex_relation1, 2 \<mapsto> ex_relation2]\<rparr>"

section \<open>Properties of the loops and sets\<close>

lemma forEach_append:
  "forEach f (xs @ ys) s = (case forEach f xs s of Inl e \<Rightarrow> Inl e | Inr s' \<Rightarrow> forEach f ys s')"
  by (induction xs arbitrary: s) (auto split: sum.splits)

lemma forEach_snoc_Inr:
  "forEach f (xs @ [x]) s = Inr s'' \<longleftrightarrow> (\<exists>s'. forEach f xs s = Inr s' \<and> f x s' = Inr s'')"
  by (auto simp: forEach_append split: sum.splits)

lemma forEach_total:
  assumes "\<And>x s. x \<in> set xs \<Longrightarrow> \<exists>s'. f x s = Inr s'"
  shows "\<exists>s'. forEach f xs s = Inr s'"
  using assms
proof (induction xs arbitrary: s)
  case Nil
  then show ?case by simp
next
  case (Cons x xs)
  from Cons.prems [of x s] obtain s1 where s1: "f x s = Inr s1" by auto
  from Cons.IH [of s1] Cons.prems obtain s2 where "forEach f xs s1 = Inr s2" by auto
  with s1 show ?case by simp
qed

lemma set_fold_Set_add: "set (fold Set_add xs acc) = set acc \<union> set xs"
  by (induction xs arbitrary: acc) (auto simp: Set_add_def)

lemma distinct_fold_Set_add: "distinct acc \<Longrightarrow> distinct (fold Set_add xs acc)"
  by (induction xs arbitrary: acc) (auto simp: Set_add_def)

lemma set_new_Set: "set (new_Set xs) = set xs"
  by (simp add: new_Set_def set_fold_Set_add)

lemma distinct_new_Set: "distinct (new_Set xs)"
  by (simp add: new_Set_def distinct_fold_Set_add)

lemma split_not_Nil: "split sep s \<noteq> []"
  by (induction s) (auto split: list.splits)

section \<open>The loop of \<open>buildLinks\<close>\<close>

lemma forEach_tag_step:
  "forEach (tag_step this) ts st = forEach (link_step this) (entries ts) st"
  by (induction ts arbitrary: st)
     (auto simp: entries_def tag_step_def forEach_append split: sum.splits)

lemma relatedTags_entries:
  "e \<in> set (entries (tags this)) \<Longrightarrow> relatedTags this e \<noteq> []"
  by (auto simp: entries_def relatedTags_def filter_empty_conv)

lemma link_step_NaN: "parseInt e = None \<Longrightarrow> link_step this e st = Inr st"
  by (simp add: link_step_def)

lemma link_step_processed:
  "parseInt e = Some n \<Longrightarrow> n \<in> processedRelations st \<Longrightarrow> link_step this e st = Inr st"
  by (simp add: link_step_def)

lemma link_step_unbuildable:
  assumes "parseInt e = Some n" "\<not> buildable this n"
  shows "link_step this e st = Inr st"
proof (cases "relationMap this n")
  case None
  with assms(1) show ?thesis by (simp add: link_step_def)
next
  case (Some r)
  with assms(2) have "find (\<lambda>node. n_id node = extractTableName (src_table r)) (nodes this) = None
    \<or> find (\<lambda>node. n_id node = extractTableName (dst_table r)) (nodes this) = None"
    by (simp add: buildable_def)
  with assms(1) Some show ?thesis
    by (auto simp add: link_step_def Let_def split: option.split)
qed

lemma link_step_skip:
  assumes "parseInt e = None \<or> (\<exists>n. parseInt e = Some n \<and> (n \<in> processedRelations st \<or> \<not> buildable this n))"
  shows "link_step this e st = Inr st"
  using assms link_step_NaN link_step_processed link_step_unbuildable by blast

lemma link_step_emit:
  assumes "parseInt e = Some n" "n \<notin> processedRelations st" "relationMap this n = Some r"
    "find (\<lambda>node. n_id node = extractTableName (src_table r)) (nodes this) = Some a"
    "find (\<lambda>node. n_id node = extractTableName (dst_table r)) (nodes this) = Some b"
  shows "link_step this e st =
     (case relatedTags this e of
        [] \<Rightarrow> Inl TypeError
      | p # ps \<Rightarrow>
         Inr \<lparr>st_links = st_links st @
                [make_link this n r a b (p # ps) p
                   (fst (nextOffset (extractTableName (src_table r))
                      (extractTableName (dst_table r)) (edgeCounts st)))],
              processedRelations = insert n (processedRelations st),
              edgeCounts = snd (nextOffset (extractTableName (src_table r))
                      (extractTableName (dst_table r)) (edgeCounts st))\<rparr>)"
  using assms by (simp add: link_step_def Let_def split_beta split: list.split)

lemma link_step_cases:
  assumes "link_step this e st = Inr st'"
  obtains (skip) "st' = st"
      "\<And>n. parseInt e = Some n \<Longrightarrow> buildable this n \<Longrightarrow> n \<in> processedRelations st"
    | (emit) n r a b p ps where
      "parseInt e = Some n" "n \<notin> processedRelations st" "relationMap this n = Some r"
      "find (\<lambda>node. n_id node = extractTableName (src_table r)) (nodes this) = Some a"
      "find (\<lambda>node. n_id node = extractTableName (dst_table r)) (nodes this) = Some b"
      "relatedTags this e = p # ps"
      "st' = \<lparr>st_links = st_links st @
                [make_link this n r a b (p # ps) p
                   (fst (nextOffset (extractTableName (src_table r))
                      (extractTableName (dst_table r)) (edgeCounts st)))],
              processedRelations = insert n (processedRelations st),
              edgeCounts = snd (nextOffset (extractTableName (src_table r))
                      (extractTableName (dst_table r)) (edgeCounts st))\<rparr>"
proof (cases "parseInt e = None \<or> (\<exists>n. parseInt e = Some n \<and> (n \<in> processedRelations st \<or> \<not> buildable this n))")
  case True
  from link_step_skip [OF True] assms have "st' = st" by simp
  moreover from True have "\<And>n. parseInt e = Some n \<Longrightarrow> buildable this n \<Longrightarrow> n \<in> processedRelations st"
    by auto
  ultimately show ?thesis by (rule skip)
next
  case False
  then obtain n where n: "parseInt e = Some n" "n \<notin> processedRelations st" "buildable this n"
    by auto
  from n(3) obtain r a b where rab: "relationMap this n = Some r"
      "find (\<lambda>node. n_id node = extractTableName (src_table r)) (nodes this) = Some a"
      "find (\<lambda>node. n_id node = extractTableName (dst_table r)) (nodes this) = Some b"
    by (auto simp: buildable_def split: option.splits)
  note eq = link_step_emit [OF n(1,2) rab]
  show ?thesis
  proof (cases "relatedTags this e")
    case Nil
    with eq assms show ?thesis by simp
  next
    case (Cons p ps)
    with eq assms have "st' = \<lparr>st_links = st_links st @
                [make_link this n r a b (p # ps) p
                   (fst (nextOffset (extractTableName (src_table r))
                      (extractTableName (dst_table r)) (edgeCounts st)))],
              processedRelations = insert n (processedRelations st),
              edgeCounts = snd (nextOffset (extractTableName (src_table r))
                      (extractTableName (dst_table r)) (edgeCounts st))\<rparr>"
      by simp
    with n(1,2) rab Cons show ?thesis by (rule emit)
  qed
qed

lemma link_step_total:
  assumes "relatedTags this e \<noteq> []"
  shows "\<exists>st'. link_step this e st = Inr st'"
proof (cases "parseInt e = None \<or> (\<exists>n. parseInt e = Some n \<and> (n \<in> processedRelations st \<or> \<not> buildable this n))")
  case True
  from link_step_skip [OF True] show ?thesis by simp
next
  case False
  then obtain n where n: "parseInt e = Some n" "n \<notin> processedRelations st" "buildable this n"
    by auto
  from n(3) obtain r a b where rab: "relationMap this n = Some r"
      "find (\<lambda>node. n_id node = extractTableName (src_table r)) (nodes this) = Some a"
      "find (\<lambda>node. n_id node = extractTableName (dst_table r)) (nodes this) = Some b"
    by (auto simp: buildable_def split: option.splits)
  from link_step_emit [OF n(1,2) rab] assms show ?thesis
    by (cases "relatedTags this e") simp_all
qed

lemma find_snoc:
  "find P (xs @ [x]) = (case find P xs of Some y \<Rightarrow> Some y | None \<Rightarrow> if P x then Some x else None)"
  by (induction xs) auto

lemma relationId_make_link [simp]: "relationId (make_link this n r a b rel p off) = n"
  by (simp add: make_link_def)

lemma link_ok_snoc: "link_ok this es l \<Longrightarrow> link_ok this (es @ [e]) l"
  unfolding link_ok_def find_snoc by fastforce

lemma link_inv_init: "link_inv this [] init_state"
  by (simp add: link_inv_def init_state_def)

lemma link_inv_step:
  assumes inv: "link_inv this es st" and step: "link_step this e st = Inr st'"
  shows "link_inv this (es @ [e]) st'"
  using step
proof (cases rule: link_step_cases)
  case skip
  with inv show ?thesis
    by (auto simp: link_inv_def intro: link_ok_snoc)
next
  case (emit n r a b p ps)
  let ?l = "make_link this n r a b (p # ps) p
              (fst (nextOffset (extractTableName (src_table r))
                 (extractTableName (dst_table r)) (edgeCounts st)))"
  have links': "st_links st' = st_links st @ [?l]"
    and proc': "processedRelations st' = insert n (processedRelations st)"
    using emit(7) by simp_all
  have bn: "buildable this n"
    using emit(3,4,5) by (simp add: buildable_def)
  from inv have i1: "processedRelations st = relationId ` set (st_links st)"
    and i2: "distinct (map relationId (st_links st))"
    and i3: "\<And>e n. e \<in> set es \<Longrightarrow> parseInt e = Some n \<Longrightarrow> buildable this n \<Longrightarrow> n \<in> processedRelations st"
    and i4: "\<And>l. l \<in> set (st_links st) \<Longrightarrow> link_ok this es l"
    by (auto simp: link_inv_def)
  have none: "find (\<lambda>e. parseInt e = Some n) es = None"
    using i3 bn emit(2) by (auto simp: find_None_iff)
  have new: "link_ok this (es @ [e]) ?l"
    unfolding link_ok_def find_snoc using none emit(1,3,4,5,6) by auto
  have c1: "processedRelations st' = relationId ` set (st_links st')"
    using i1 links' proc' by simp
  have c2: "distinct (map relationId (st_links st'))"
    using i1 i2 emit(2) links' by simp
  have c3: "\<forall>e'\<in>set (es @ [e]). \<forall>k. parseInt e' = Some k \<longrightarrow> buildable this k \<longrightarrow> k \<in> processedRelations st'"
    using i3 emit(1) proc' by auto
  have c4: "\<forall>l\<in>set (st_links st'). link_ok this (es @ [e]) l"
    using i4 new links' by (auto intro: link_ok_snoc)
  from c1 c2 c3 c4 show ?thesis unfolding link_inv_def by blast
qed

lemma link_inv_forEach:
  "forEach (link_step this) es init_state = Inr st \<Longrightarrow> link_inv this es st"
proof (induction es arbitrary: st rule: rev_induct)
  case Nil
  then show ?case using link_inv_init by simp
next
  case (snoc e es)
  then obtain st1 where "forEach (link_step this) es init_state = Inr st1"
      "link_step this e st1 = Inr st"
    by (auto simp: forEach_snoc_Inr)
  with snoc.IH show ?case by (blast intro: link_inv_step)
qed

lemma forEach_link_step_total:
  "set es \<subseteq> set (entries (tags this)) \<Longrightarrow> \<exists>st'. forEach (link_step this) es st = Inr st'"
proof (rule forEach_total)
  fix x s
  assume "set es \<subseteq> set (entries (tags this))" "x \<in> set es"
  then have "x \<in> set (entries (tags this))"
    by auto
  then have "relatedTags this x \<noteq> []"
    by (rule relatedTags_entries)
  then show "\<exists>st'. link_step this x s = Inr st'"
    by (rule link_step_total)
qed

lemma buildLinks_eq:
  "buildLinks this =
     (case forEach (link_step this) (entries (tags this)) init_state of
        Inl e \<Rightarrow> Inl e | Inr st \<Rightarrow> Inr (this\<lparr>links := st_links st\<rparr>))"
  by (simp add: buildLinks_def forEach_tag_step init_state_def)

lemma buildLinks_Inr:
  "\<exists>st. forEach (link_step this) (entries (tags this)) init_state = Inr st \<and>
        link_inv this (entries (tags this)) st \<and>
        buildLinks this = Inr (this\<lparr>links := st_links st\<rparr>)"
proof -
  from forEach_link_step_total [of "entries (tags this)" this init_state]
  obtain st where st: "forEach (link_step this) (entries (tags this)) init_state = Inr st"
    by auto
  from link_inv_forEach [OF st] st show ?thesis
    by (auto simp: buildLinks_eq)
qed

section \<open>The model built from the example\<close>

lemma parseInt_1: "parseInt ''1'' = Some 1"
  by code_simp

lemma parseInt_2: "parseInt ''2'' = Some 2"
  by code_simp

lemma extract_orders: "extractTableName ''s.orders'' = ''orders''"
  by code_simp

lemma extract_customers: "extractTableName ''s.customers'' = ''customers''"
  by code_simp

lemma toString_1: "toString 1 = ''1''"
  by code_simp

lemma toString_2: "toString 2 = ''2''"
  by code_simp

lemma ex_model_built: "loadData (Parsed [ex_tag]) (Parsed [ex_relation1, ex_relation2]) constructor = Inr ex_model"
  by (simp add: loadData_def processData_def constructor_def assignColors_def buildNodes_def buildLinks_def
     ex_model_def ex_tag_def ex_relation1_def ex_relation2_def ex_orders_def ex_customers_def ex_link1_def ex_link2_def
     uniqueTags_def new_Set_def Set_add_def colors_def enumerate_eq_zip node_step_def nodeMap_ensure_def nodeMap_has_def nodeMap_push_def
     extract_orders extract_customers tag_step_def link_step_def parseInt_1 parseInt_2 toString_1 toString_2
     relatedTags_def nextOffset_def make_link_def Let_def)

section \<open>Tenant filtering without a tenant, and what the call changes\<close>

text \<open>
  C6: \<open>getDataByTenant\<close> applied to the empty string and to an absent tenant id both
  return what \<open>getAllData\<close> returns: the same nodes, links and colour map.
\<close>

theorem getDataByTenant_no_tenant:
  "fst (getDataByTenant (Some []) this) = getAllData this \<and>
   fst (getDataByTenant None this) = getAllData this"
  by (simp add: getDataByTenant_def)

theorem getDataByTenant_no_tenant_witness:
  "fst (getDataByTenant (Some []) ex_model) = getAllData ex_model \<and>
   fst (getDataByTenant None ex_model) = getAllData ex_model \<and>
   links (getAllData ex_model) = [ex_link1, ex_link2]"
  using getDataByTenant_no_tenant [of ex_model]
  by (simp add: getAllData_def ex_model_def)

text \<open>
  C9: \<open>getDataByTenant\<close> writes no field of the instance: after the call, for every
  tenant id, the node list, link list, colour map, tag sequence, relation sequence and
  relation map are the ones before the call.
\<close>

theorem getDataByTenant_frame:
  "snd (getDataByTenant tenantId this) = this"
  by (simp add: getDataByTenant_def Let_def)

theorem getDataByTenant_frame_witness:
  "snd (getDataByTenant (Some ''x'') ex_model) = ex_model \<and>
   snd (getDataByTenant None ex_model) = ex_model"
  using getDataByTenant_frame [of "Some ''x''" ex_model] getDataByTenant_frame [of None ex_model]
  by simp

section \<open>Numbers and their strings\<close>

lemma digits_small: "n < 10 \<Longrightarrow> digits n = [char_of (48 + n)]"
  by (subst digits.simps) simp

lemma digits_large: "10 \<le> n \<Longrightarrow> digits n = digits (n div 10) @ [char_of (48 + n mod 10)]"
  by (subst digits.simps) simp

lemma of_char_digit: "0 \<le> d \<Longrightarrow> d < 10 \<Longrightarrow> (of_char (char_of (48 + d :: int)) :: int) = 48 + d"
  by simp

lemma digits_not_Nil: "digits n \<noteq> []"
  by (cases "n < 10") (simp_all add: digits_small digits_large)

lemma digits_chars:
  "0 \<le> n \<Longrightarrow> c \<in> set (digits n) \<Longrightarrow> 48 \<le> (of_char c :: int) \<and> (of_char c :: int) \<le> 57"
proof (induction n rule: digits.induct)
  case (1 n)
  show ?case
  proof (cases "n < 10")
    case True
    with "1.prems" have "c = char_of (48 + n)" by (simp add: digits_small)
    with True "1.prems"(1) of_char_digit [of n] show ?thesis by simp
  next
    case False
    then have "digits n = digits (n div 10) @ [char_of (48 + n mod 10)]"
      by (simp add: digits_large)
    with "1.prems"(2) consider "c \<in> set (digits (n div 10))" | "c = char_of (48 + n mod 10)"
      by auto
    then show ?thesis
    proof cases
      case 1
      with "1.IH" False "1.prems"(1) show ?thesis by simp
    next
      case 2
      with of_char_digit [of "n mod 10"] show ?thesis by simp
    qed
  qed
qed

lemma decimal_value_digits: "0 \<le> n \<Longrightarrow> decimal_value (digits n) = n"
proof (induction n rule: digits.induct)
  case (1 n)
  show ?case
  proof (cases "n < 10")
    case True
    with "1.prems" of_char_digit [of n] show ?thesis
      by (simp add: digits_small decimal_value_def)
  next
    case False
    with "1.IH" "1.prems" have "decimal_value (digits (n div 10)) = n div 10" by simp
    with False of_char_digit [of "n mod 10"] show ?thesis
      by (simp add: digits_large decimal_value_def)
  qed
qed

lemma hd_digits: "0 < n \<Longrightarrow> hd (digits n) \<noteq> CHR ''0''"
proof (induction n rule: digits.induct)
  case (1 n)
  show ?case
  proof (cases "n < 10")
    case True
    show ?thesis
    proof
      assume "hd (digits n) = CHR ''0''"
      with True have "char_of (48 + n) = CHR ''0''" by (simp add: digits_small)
      then have "(of_char (char_of (48 + n)) :: int) = of_char CHR ''0''" by simp
      with True "1.prems" of_char_digit [of n] show False by simp
    qed
  next
    case False
    with "1.IH" have "hd (digits (n div 10)) \<noteq> CHR ''0''" by simp
    with False show ?thesis by (simp add: digits_large digits_not_Nil)
  qed
qed

lemma digits_decimal: "0 \<le> n \<Longrightarrow> is_decimal_numeral (digits n) n"
proof -
  assume n: "0 \<le> n"
  have "hd (digits n) = CHR ''0'' \<longrightarrow> digits n = ''0''"
  proof (cases "n = 0")
    case True
    then show ?thesis by (simp add: digits_small)
  next
    case False
    with n hd_digits [of n] show ?thesis by simp
  qed
  with n show ?thesis
    by (simp add: is_decimal_numeral_def digits_not_Nil digits_chars decimal_value_digits)
qed

lemma toString_decimal:
  assumes "\<bar>n\<bar> < 2 ^ 53"
  shows "\<exists>ds. is_decimal_numeral ds \<bar>n\<bar> \<and> toString n = (if n < 0 then ''-'' else []) @ ds"
proof -
  have "is_decimal_numeral (digits \<bar>n\<bar>) \<bar>n\<bar>" by (rule digits_decimal) simp
  moreover have "toString n = (if n < 0 then ''-'' else []) @ digits \<bar>n\<bar>"
    using assms by (auto simp: toString_def toString_nat_def)
  ultimately show ?thesis by blast
qed

text \<open>What \<open>parseInt\<close> and the conversion to a string do at the edge of the exact range.\<close>

lemma parseInt_rounds: "parseInt ''9007199254740993'' = Some 9007199254740992"
  by code_simp

lemma parseInt_hex: "parseInt '' -0x1F.5'' = Some (- 31)"
  by code_simp

lemma parseInt_NaN: "parseInt ''abc'' = None"
  by code_simp

lemma parseInt_sextillion: "parseInt ''1000000000000000000000'' = Some 1000000000000000000000"
  by code_simp

lemma toString_sextillion: "toString 1000000000000000000000 = ''1e+21''"
  by code_simp

lemma toString_shortest: "toString 123456789012345683968 = ''123456789012345680000''"
  by code_simp

lemma toString_exponent: "toString (- 1180591620717411303424) = ''-1.1805916207174113e+21''"
  by code_simp

lemma toString_120: "toString 120 = ''120''"
  by code_simp

section \<open>One link per relation\<close>

lemma find_Some_D: "find P xs = Some x \<Longrightarrow> x \<in> set xs \<and> P x"
  by (induction xs) (auto split: if_splits)

lemma find_not_None: "x \<in> set xs \<Longrightarrow> P x \<Longrightarrow> find P xs \<noteq> None"
  by (auto simp: find_None_iff)

lemma filter_unique:
  "distinct (map f xs) \<Longrightarrow> x \<in> set xs \<Longrightarrow> filter (\<lambda>y. f y = f x) xs = [x]"
proof (induction xs)
  case Nil
  then show ?case by simp
next
  case (Cons a xs)
  show ?case
  proof (cases "a = x")
    case True
    with Cons.prems have "f x \<notin> f ` set xs" by simp
    then have "filter (\<lambda>y. f y = f x) xs = []"
      by (auto simp: filter_empty_conv image_iff)
    with True show ?thesis by simp
  next
    case False
    with Cons.prems have "x \<in> set xs" "f a \<noteq> f x" by auto
    with Cons show ?thesis by simp
  qed
qed

lemma relationMap_fold_Some:
  "fold (\<lambda>relation m. m(r_id relation \<mapsto> relation)) rs m0 n = Some r \<Longrightarrow>
     (r \<in> set rs \<and> r_id r = n) \<or> m0 n = Some r"
  by (induction rs arbitrary: m0) (fastforce split: if_splits)+

lemma relationMap_fold_dom:
  "dom (fold (\<lambda>relation m. m(r_id relation \<mapsto> relation)) rs m0) = dom m0 \<union> r_id ` set rs"
  by (induction rs arbitrary: m0) auto

lemma n_id_nodeMap_push: "map n_id (nodeMap_push table rid nodeMap) = map n_id nodeMap"
  by (simp add: nodeMap_push_def)

lemma set_n_id_nodeMap_ensure:
  "set (map n_id (nodeMap_ensure table nodeMap)) = insert table (set (map n_id nodeMap))"
  by (auto simp: nodeMap_ensure_def nodeMap_has_def)

lemma set_n_id_node_step:
  "set (map n_id (node_step relation nodeMap)) =
     {extractTableName (src_table relation), extractTableName (dst_table relation)} \<union>
     set (map n_id nodeMap)"
  by (simp only: node_step_def Let_def n_id_nodeMap_push set_n_id_nodeMap_ensure) auto

lemma set_n_id_fold_node_step:
  "set (map n_id (fold node_step rs acc)) =
     set (map n_id acc) \<union>
     (\<Union>r\<in>set rs. {extractTableName (src_table r), extractTableName (dst_table r)})"
proof (induction rs arbitrary: acc)
  case Nil
  then show ?case by simp
next
  case (Cons r rs)
  show ?case
    by (simp only: fold_simps Cons.IH set_n_id_node_step) auto
qed

lemma distinct_n_id_fold_node_step:
  "distinct (map n_id acc) \<Longrightarrow> distinct (map n_id (fold node_step rs acc))"
proof (induction rs arbitrary: acc)
  case Nil
  then show ?case by simp
next
  case (Cons r rs)
  have "distinct (map n_id (node_step r acc))"
    using Cons.prems
    by (auto simp: node_step_def Let_def n_id_nodeMap_push nodeMap_ensure_def nodeMap_has_def)
  then show ?case using Cons.IH by simp
qed

lemma tags_buildLinks: "buildLinks this = Inr m \<Longrightarrow>
  tags m = tags this \<and> nodes m = nodes this \<and> colorMap m = colorMap this \<and>
  relationMap m = relationMap this \<and> relations m = relations this"
  by (auto simp: buildLinks_def split: sum.splits)

lemma buildLinks_links_ok:
  assumes "buildLinks this = Inr m" "l \<in> set (links m)"
  shows "link_ok this (entries (tags this)) l"
proof -
  from buildLinks_Inr [of this] obtain st where
    st: "link_inv this (entries (tags this)) st" "buildLinks this = Inr (this\<lparr>links := st_links st\<rparr>)"
    by blast
  with assms have "l \<in> set (st_links st)" by auto
  with st(1) show ?thesis by (simp add: link_inv_def)
qed

lemma buildLinks_distinct:
  assumes "buildLinks this = Inr m"
  shows "distinct (map relationId (links m))"
proof -
  from buildLinks_Inr [of this] obtain st where
    st: "link_inv this (entries (tags this)) st" "buildLinks this = Inr (this\<lparr>links := st_links st\<rparr>)"
    by blast
  with assms have "links m = st_links st" by auto
  with st(1) show ?thesis by (simp add: link_inv_def)
qed

lemma buildLinks_complete:
  assumes "buildLinks this = Inr m" "e \<in> set (entries (tags this))" "parseInt e = Some n"
    "buildable this n"
  shows "n \<in> relationId ` set (links m)"
proof -
  from buildLinks_Inr [of this] obtain st where
    st: "link_inv this (entries (tags this)) st" "buildLinks this = Inr (this\<lparr>links := st_links st\<rparr>)"
    by blast
  with assms have "links m = st_links st" by auto
  with st(1) assms(2,3,4) show ?thesis by (auto simp: link_inv_def)
qed

lemma buildLinks_total: "\<exists>m. buildLinks this = Inr m"
  using buildLinks_Inr [of this] by blast

lemma processData_prepared: "processData this = buildLinks (prepared this)"
  by (simp add: processData_def prepared_def)

lemma prepared_fields:
  "tags (prepared this) = tags this"
  "relations (prepared this) = relations this"
  "nodes (prepared this) = fold node_step (relations this) []"
  "relationMap (prepared this) =
     fold (\<lambda>relation m. m(r_id relation \<mapsto> relation)) (relations this) (relationMap this)"
  "colorMap (prepared this) = colorMap (assignColors this)"
  by (simp_all add: prepared_def buildNodes_def assignColors_def)

lemma relationMap_fold_member:
  assumes "r \<in> set rs"
  shows "\<exists>r'. fold (\<lambda>relation m. m(r_id relation \<mapsto> relation)) rs m0 (r_id r) = Some r' \<and>
              r' \<in> set rs \<and> r_id r' = r_id r"
  using assms
proof (induction rs rule: rev_induct)
  case Nil
  then show ?case by simp
next
  case (snoc a rs)
  show ?case
  proof (cases "r_id a = r_id r")
    case True
    then show ?thesis by simp
  next
    case False
    with snoc.prems have "r \<in> set rs" by auto
    from snoc.IH [OF this] False show ?thesis by auto
  qed
qed

lemma prepared_node_found:
  assumes "r \<in> set (relations this)"
  shows "find (\<lambda>node. n_id node = extractTableName (src_table r)) (nodes (prepared this)) \<noteq> None"
    and "find (\<lambda>node. n_id node = extractTableName (dst_table r)) (nodes (prepared this)) \<noteq> None"
proof -
  have "extractTableName (src_table r) \<in> set (map n_id (fold node_step (relations this) []))"
    and "extractTableName (dst_table r) \<in> set (map n_id (fold node_step (relations this) []))"
    unfolding set_n_id_fold_node_step using assms by auto
  then have "extractTableName (src_table r) \<in> set (map n_id (nodes (prepared this)))"
    and "extractTableName (dst_table r) \<in> set (map n_id (nodes (prepared this)))"
    by (simp_all add: prepared_fields)
  then show "find (\<lambda>node. n_id node = extractTableName (src_table r)) (nodes (prepared this)) \<noteq> None"
    and "find (\<lambda>node. n_id node = extractTableName (dst_table r)) (nodes (prepared this)) \<noteq> None"
    by (auto simp: find_None_iff)
qed

lemma prepared_buildable:
  assumes "r \<in> set (relations this)"
  shows "buildable (prepared this) (r_id r)"
proof -
  from relationMap_fold_member [OF assms, of "relationMap this"]
  obtain r' where r': "relationMap (prepared this) (r_id r) = Some r'" "r' \<in> set (relations this)"
    by (auto simp: prepared_fields)
  from prepared_node_found [OF r'(2)] r'(1) show ?thesis
    by (simp add: buildable_def)
qed

lemma entries_member:
  "t \<in> set ts \<Longrightarrow> \<not> is_deleted t \<Longrightarrow> e \<in> set (relation_ids t) \<Longrightarrow> e \<in> set (entries ts)"
  by (auto simp: entries_def)

lemma l_id_link_ok: "link_ok this es l \<Longrightarrow> l_id l = ''relation-'' @ toString (relationId l)"
  unfolding link_ok_def
proof (elim exE conjE)
  fix e r a b p ps off
  assume "l = make_link this (relationId l) r a b (p # ps) p off"
  then have "l_id l = l_id (make_link this (relationId l) r a b (p # ps) p off)" by simp
  then show ?thesis by (simp add: make_link_def)
qed

text \<open>
  C1: for a relation id that some entry of \<open>relation_ids\<close> of a non-deleted tag parses to
  and that is the \<open>id\<close> of a record of the relation dataset, \<open>processData\<close> returns, and
  the links it built hold exactly one link with that \<open>relationId\<close>, however many tags
  or entries refer to the relation; the \<open>id\<close> of that link is \<open>relation-\<close> followed by
  the string of the relation id as the template literal inserts it, which for an id
  below \<open>2 ^ 53\<close> in absolute value is its sign and decimal numeral.
\<close>

theorem processData_one_link_per_relation:
  assumes "t \<in> set (tags this)" and "\<not> is_deleted t" and "e \<in> set (relation_ids t)"
    and "parseInt e = Some n" and "r \<in> set (relations this)" and "r_id r = n"
  shows "\<exists>m l. processData this = Inr m \<and>
           filter (\<lambda>l. relationId l = n) (links m) = [l] \<and>
           l_id l = ''relation-'' @ toString n \<and>
           (\<bar>n\<bar> < 2 ^ 53 \<longrightarrow>
              (\<exists>ds. is_decimal_numeral ds \<bar>n\<bar> \<and>
                 l_id l = ''relation-'' @ (if n < 0 then ''-'' else []) @ ds))"
proof -
  from buildLinks_total [of "prepared this"] obtain m where m: "buildLinks (prepared this) = Inr m"
    by blast
  have e: "e \<in> set (entries (tags (prepared this)))"
    using assms(1,2,3) by (simp add: prepared_fields entries_member)
  have "buildable (prepared this) n"
    using prepared_buildable [OF assms(5)] assms(6) by simp
  from buildLinks_complete [OF m e assms(4) this]
  obtain l where l: "l \<in> set (links m)" "relationId l = n" by auto
  from filter_unique [OF buildLinks_distinct [OF m] l(1)] l(2)
  have one: "filter (\<lambda>l. relationId l = n) (links m) = [l]" by simp
  from l_id_link_ok [OF buildLinks_links_ok [OF m l(1)]] l(2)
  have id: "l_id l = ''relation-'' @ toString n" by simp
  have dec: "\<exists>ds. is_decimal_numeral ds \<bar>n\<bar> \<and>
      l_id l = ''relation-'' @ (if n < 0 then ''-'' else []) @ ds" if "\<bar>n\<bar> < 2 ^ 53"
    using toString_decimal [OF that] id by auto
  from m one id dec show ?thesis by (auto simp: processData_prepared)
qed

theorem processData_one_link_per_relation_witness:
  "large_tag \<in> set (tags large_input) \<and> \<not> is_deleted large_tag \<and>
   ''120'' \<in> set (relation_ids large_tag) \<and> parseInt ''120'' = Some 120 \<and>
   relation120 \<in> set (relations large_input) \<and> r_id relation120 = 120 \<and>
   (\<exists>m l. processData large_input = Inr m \<and>
      filter (\<lambda>l. relationId l = 120) (links m) = [l] \<and> l_id l = ''relation-120'') \<and>
   ''1000000000000000000000'' \<in> set (relation_ids large_tag) \<and>
   parseInt ''1000000000000000000000'' = Some 1000000000000000000000 \<and>
   large_relation \<in> set (relations large_input) \<and>
   r_id large_relation = 1000000000000000000000 \<and>
   (\<exists>m l. processData large_input = Inr m \<and>
      filter (\<lambda>l. relationId l = 1000000000000000000000) (links m) = [l] \<and>
      l_id l = ''relation-1e+21'')"
proof -
  have h1: "large_tag \<in> set (tags large_input)" by (simp add: large_input_def)
  have h2: "\<not> is_deleted large_tag" by (simp add: large_tag_def)
  have h3: "''120'' \<in> set (relation_ids large_tag)" by (simp add: large_tag_def)
  have h4: "parseInt ''120'' = Some 120" by code_simp
  have h5: "relation120 \<in> set (relations large_input)" by (simp add: large_input_def)
  have h6: "r_id relation120 = 120" by (simp add: relation120_def)
  have g3: "''1000000000000000000000'' \<in> set (relation_ids large_tag)"
    by (simp add: large_tag_def)
  have g5: "large_relation \<in> set (relations large_input)" by (simp add: large_input_def)
  have g6: "r_id large_relation = 1000000000000000000000" by (simp add: large_relation_def)
  from processData_one_link_per_relation [OF h1 h2 h3 h4 h5 h6]
  have small: "\<exists>m l. processData large_input = Inr m \<and>
      filter (\<lambda>l. relationId l = 120) (links m) = [l] \<and> l_id l = ''relation-120''"
    by (auto simp: toString_120)
  from processData_one_link_per_relation [OF h1 h2 g3 parseInt_sextillion g5 g6]
  have large: "\<exists>m l. processData large_input = Inr m \<and>
      filter (\<lambda>l. relationId l = 1000000000000000000000) (links m) = [l] \<and>
      l_id l = ''relation-1e+21''"
    by (auto simp: toString_sextillion)
  from h1 h2 h3 h4 h5 h6 g3 parseInt_sextillion g5 g6 small large show ?thesis by blast
qed

section \<open>The tags of a link\<close>

lemma parseInt_01: "parseInt ''01'' = Some 1"
  by code_simp

lemma cx_model_built:
  "loadData (Parsed [cx_tag]) (Parsed [ex_relation1]) constructor = Inr cx_model"
  by (simp add: loadData_def processData_def constructor_def assignColors_def buildNodes_def
      buildLinks_def cx_model_def cx_tag_def ex_relation1_def cx_orders_def cx_customers_def
      cx_link_def uniqueTags_def new_Set_def Set_add_def colors_def enumerate_eq_zip
      node_step_def nodeMap_ensure_def nodeMap_has_def nodeMap_push_def extract_orders
      extract_customers tag_step_def link_step_def parseInt_01 toString_1 relatedTags_def
      nextOffset_def make_link_def Let_def)

lemma relatedTags_cong: "tags m = tags this \<Longrightarrow> relatedTags m e = relatedTags this e"
  by (simp add: relatedTags_def)

lemma shared_model_built:
  "loadData (Parsed [tag_c, tag_b, tag_a, tag_d]) (Parsed [ex_relation1, ex_relation2])
     constructor = Inr shared_model"
  by (simp add: loadData_def processData_def constructor_def assignColors_def buildNodes_def
      buildLinks_def shared_model_def tag_a_def tag_b_def tag_c_def tag_d_def
      ex_relation1_def ex_relation2_def ex_orders_def ex_customers_def shared_link1_def
      shared_link2_def uniqueTags_def new_Set_def Set_add_def colors_def enumerate_eq_zip
      node_step_def nodeMap_ensure_def nodeMap_has_def nodeMap_push_def extract_orders
      extract_customers tag_step_def link_step_def parseInt_1 parseInt_2 toString_1
      toString_2 relatedTags_def nextOffset_def make_link_def Let_def)

lemma buildLinks_shared_model: "buildLinks shared_model = Inr shared_model"
  by (simp add: buildLinks_def shared_model_def tag_a_def tag_b_def tag_c_def tag_d_def
      ex_relation1_def ex_relation2_def ex_orders_def ex_customers_def shared_link1_def
      shared_link2_def extract_orders extract_customers tag_step_def link_step_def
      parseInt_1 parseInt_2 toString_1 toString_2 relatedTags_def nextOffset_def
      make_link_def Let_def)

text \<open>
  C2, as the code has it: every link that \<open>buildLinks\<close> produces was created at one entry
  of \<open>relation_ids\<close>, the first entry, in the order of the non-deleted tags and of their
  entries, that \<open>parseInt\<close> reads as the link's relation id. Its \<open>tagNames\<close> are the
  \<open>tag_name\<close> values, in tag order, of exactly the non-deleted tags whose \<open>relation_ids\<close>
  contain that entry as a string; they are not empty; \<open>tagIds\<close> are the \<open>tag_id\<close> values
  of the same tags; the colour is the colour of the first of them. When the entry is the
  string of the relation id, these are the tags whose \<open>relation_ids\<close> contain the relation
  id as a string.
\<close>

theorem buildLinks_related_tags:
  assumes "buildLinks this = Inr m" and "l \<in> set (links m)"
  shows "\<exists>e. find (\<lambda>e. parseInt e = Some (relationId l))
                (concat (map relation_ids (filter (\<lambda>t. \<not> is_deleted t) (tags m)))) = Some e \<and>
           parseInt e = Some (relationId l) \<and>
           tagNames l =
             map tag_name (filter (\<lambda>t. \<not> is_deleted t \<and> e \<in> set (relation_ids t)) (tags m)) \<and>
           tagIds l =
             map tag_id (filter (\<lambda>t. \<not> is_deleted t \<and> e \<in> set (relation_ids t)) (tags m)) \<and>
           tagNames l \<noteq> [] \<and>
           color l =
             colorMap m (tag_name
               (hd (filter (\<lambda>t. \<not> is_deleted t \<and> e \<in> set (relation_ids t)) (tags m)))) \<and>
           (e = toString (relationId l) \<longrightarrow>
              tagNames l =
                map tag_name
                  (filter (\<lambda>t. \<not> is_deleted t \<and> toString (relationId l) \<in> set (relation_ids t))
                     (tags m)))"
proof -
  from tags_buildLinks [OF assms(1)]
  have same: "tags m = tags this" "colorMap m = colorMap this" by simp_all
  from buildLinks_links_ok [OF assms] obtain e r a b p ps off where
    f: "find (\<lambda>e. parseInt e = Some (relationId l)) (entries (tags this)) = Some e"
    and rel: "relatedTags this e = p # ps"
    and l: "l = make_link this (relationId l) r a b (p # ps) p off"
    unfolding link_ok_def by blast
  have rel': "filter (\<lambda>t. \<not> is_deleted t \<and> e \<in> set (relation_ids t)) (tags m) = p # ps"
    using rel same(1) by (simp add: relatedTags_def)
  from l have "tagNames l = tagNames (make_link this (relationId l) r a b (p # ps) p off)"
    by simp
  then have n: "tagNames l = map tag_name (p # ps)" by (simp add: make_link_def)
  from l have "tagIds l = tagIds (make_link this (relationId l) r a b (p # ps) p off)"
    by simp
  then have i: "tagIds l = map tag_id (p # ps)" by (simp add: make_link_def)
  from l have "color l = color (make_link this (relationId l) r a b (p # ps) p off)"
    by simp
  then have c: "color l = colorMap m (tag_name p)" by (simp add: make_link_def same)
  from find_Some_D [OF f] have k: "parseInt e = Some (relationId l)" by simp
  from f same(1)
  have f': "find (\<lambda>e. parseInt e = Some (relationId l))
      (concat (map relation_ids (filter (\<lambda>t. \<not> is_deleted t) (tags m)))) = Some e"
    by (simp add: entries_def)
  have n': "tagNames l =
      map tag_name (filter (\<lambda>t. \<not> is_deleted t \<and> e \<in> set (relation_ids t)) (tags m))"
    and i': "tagIds l =
      map tag_id (filter (\<lambda>t. \<not> is_deleted t \<and> e \<in> set (relation_ids t)) (tags m))"
    and c': "color l =
      colorMap m (tag_name
        (hd (filter (\<lambda>t. \<not> is_deleted t \<and> e \<in> set (relation_ids t)) (tags m))))"
    and ne: "tagNames l \<noteq> []"
    using n i c by (simp_all add: rel')
  from n' have s: "e = toString (relationId l) \<longrightarrow>
      tagNames l =
        map tag_name
          (filter (\<lambda>t. \<not> is_deleted t \<and> toString (relationId l) \<in> set (relation_ids t))
             (tags m))"
    by blast
  from f' k n' i' ne c' s show ?thesis by blast
qed

theorem buildLinks_related_tags_witness:
  "buildLinks shared_model = Inr shared_model \<and> shared_link2 \<in> set (links shared_model) \<and>
   tags shared_model = [tag_c, tag_b, tag_a, tag_d] \<and>
   find (\<lambda>e. parseInt e = Some (relationId shared_link2))
     (concat (map relation_ids (filter (\<lambda>t. \<not> is_deleted t) (tags shared_model)))) =
     Some ''2'' \<and>
   filter (\<lambda>t. \<not> is_deleted t \<and> ''2'' \<in> set (relation_ids t)) (tags shared_model) =
     [tag_a, tag_d] \<and>
   is_deleted tag_b \<and> ''2'' \<in> set (relation_ids tag_b) \<and>
   \<not> is_deleted tag_c \<and> ''2'' \<notin> set (relation_ids tag_c) \<and>
   tagNames shared_link2 =
     map tag_name
       (filter (\<lambda>t. \<not> is_deleted t \<and> ''2'' \<in> set (relation_ids t)) (tags shared_model)) \<and>
   tagNames shared_link2 = [''a'', ''d''] \<and>
   tagIds shared_link2 =
     map tag_id
       (filter (\<lambda>t. \<not> is_deleted t \<and> ''2'' \<in> set (relation_ids t)) (tags shared_model)) \<and>
   tagIds shared_link2 = [''TA'', ''TD''] \<and>
   color shared_link2 = colorMap shared_model (tag_name tag_a) \<and>
   color shared_link2 = Some ''#45B7D1''"
proof -
  have i: "shared_link2 \<in> set (links shared_model)" by (simp add: shared_model_def)
  have t: "tags shared_model = [tag_c, tag_b, tag_a, tag_d]" by (simp add: shared_model_def)
  have f: "find (\<lambda>e. parseInt e = Some (relationId shared_link2))
      (concat (map relation_ids (filter (\<lambda>t. \<not> is_deleted t) (tags shared_model)))) =
      Some ''2''"
    by (simp add: t shared_link2_def tag_a_def tag_b_def tag_c_def tag_d_def parseInt_1
        parseInt_2)
  have r: "filter (\<lambda>t. \<not> is_deleted t \<and> ''2'' \<in> set (relation_ids t)) (tags shared_model) =
      [tag_a, tag_d]"
    by (simp add: t tag_a_def tag_b_def tag_c_def tag_d_def)
  have d: "is_deleted tag_b" "''2'' \<in> set (relation_ids tag_b)"
    "\<not> is_deleted tag_c" "''2'' \<notin> set (relation_ids tag_c)"
    by (simp_all add: tag_b_def tag_c_def)
  from buildLinks_related_tags [OF buildLinks_shared_model i] f
  have "tagNames shared_link2 =
      map tag_name
        (filter (\<lambda>t. \<not> is_deleted t \<and> ''2'' \<in> set (relation_ids t)) (tags shared_model))"
    and "tagIds shared_link2 =
      map tag_id
        (filter (\<lambda>t. \<not> is_deleted t \<and> ''2'' \<in> set (relation_ids t)) (tags shared_model))"
    and "color shared_link2 =
      colorMap shared_model (tag_name
        (hd (filter (\<lambda>t. \<not> is_deleted t \<and> ''2'' \<in> set (relation_ids t))
           (tags shared_model))))"
    by auto
  then have "tagNames shared_link2 =
      map tag_name
        (filter (\<lambda>t. \<not> is_deleted t \<and> ''2'' \<in> set (relation_ids t)) (tags shared_model))"
    and "tagNames shared_link2 = [''a'', ''d'']"
    and "tagIds shared_link2 =
      map tag_id
        (filter (\<lambda>t. \<not> is_deleted t \<and> ''2'' \<in> set (relation_ids t)) (tags shared_model))"
    and "tagIds shared_link2 = [''TA'', ''TD'']"
    and "color shared_link2 = colorMap shared_model (tag_name tag_a)"
    and "color shared_link2 = Some ''#45B7D1''"
    by (simp_all add: r) (simp_all add: tag_a_def tag_d_def shared_model_def)
  with buildLinks_shared_model i t f r d show ?thesis by blast
qed

text \<open>
  C2 as stated fails where the first entry is not the decimal numeral of the id: with one
  tag whose \<open>relation_ids\<close> is \<open>["01"]\<close> and the relation 1, the link of relation 1 has
  \<open>tagNames = ["a"]\<close>, but no tag's \<open>relation_ids\<close> contains the string \<open>"1"\<close>.
\<close>

theorem buildLinks_related_tags_counterexample:
  "loadData (Parsed [cx_tag]) (Parsed [ex_relation1]) constructor = Inr cx_model \<and>
   links cx_model = [cx_link] \<and> relationId cx_link = 1 \<and> tagNames cx_link = [''a''] \<and>
   map tag_name (relatedTags cx_model (toString (relationId cx_link))) = [] \<and>
   tagNames cx_link \<noteq> map tag_name (relatedTags cx_model (toString (relationId cx_link)))"
  by (simp add: cx_model_built)
     (simp add: cx_model_def cx_link_def cx_tag_def toString_1 relatedTags_def)

section \<open>Tenant filtering gives a subgraph\<close>

lemma set_fold_tables:
  "set (fold (\<lambda>relation s.
               Set_add (extractTableName (dst_table relation))
                 (Set_add (extractTableName (src_table relation)) s)) rs acc) =
     set acc \<union> (\<Union>r\<in>set rs. {extractTableName (src_table r), extractTableName (dst_table r)})"
  by (induction rs arbitrary: acc) (auto simp: Set_add_def)

lemma map_filter_member:
  "x \<in> set xs \<Longrightarrow> f x = Some y \<Longrightarrow> y \<in> set (List.map_filter f xs)"
  by (induction xs) (auto split: option.splits)

lemma link_ok_endpoints:
  assumes "link_ok this es l"
  shows "\<exists>r. relationMap this (relationId l) = Some r \<and>
           source l \<in> set (nodes this) \<and> n_id (source l) = extractTableName (src_table r) \<and>
           target l \<in> set (nodes this) \<and> n_id (target l) = extractTableName (dst_table r)"
proof -
  from assms obtain e r a b p ps off where
    r: "relationMap this (relationId l) = Some r"
    and a: "find (\<lambda>node. n_id node = extractTableName (src_table r)) (nodes this) = Some a"
    and b: "find (\<lambda>node. n_id node = extractTableName (dst_table r)) (nodes this) = Some b"
    and l: "l = make_link this (relationId l) r a b (p # ps) p off"
    unfolding link_ok_def by blast
  from l have "source l = source (make_link this (relationId l) r a b (p # ps) p off)" by simp
  then have s: "source l = a" by (simp add: make_link_def)
  from l have "target l = target (make_link this (relationId l) r a b (p # ps) p off)" by simp
  then have t: "target l = b" by (simp add: make_link_def)
  from find_Some_D [OF a] find_Some_D [OF b] r s t show ?thesis by simp
qed

lemma getDataByTenant_endpoints:
  assumes ok: "\<And>l. l \<in> set (links m) \<Longrightarrow> \<exists>r. relationMap m (relationId l) = Some r \<and>
           source l \<in> set (nodes m) \<and> n_id (source l) = extractTableName (src_table r) \<and>
           target l \<in> set (nodes m) \<and> n_id (target l) = extractTableName (dst_table r)"
    and l: "l \<in> set (links (fst (getDataByTenant tenantId m)))"
  shows "source l \<in> set (nodes (fst (getDataByTenant tenantId m))) \<and>
         target l \<in> set (nodes (fst (getDataByTenant tenantId m)))"
proof (cases "tenantId = None \<or> tenantId = Some []")
  case True
  with l have "l \<in> set (links m)" by (simp add: getDataByTenant_def getAllData_def)
  from ok [OF this] True show ?thesis by (auto simp: getDataByTenant_def getAllData_def)
next
  case False
  define ids where "ids =
    fold (\<lambda>tag s. fold (\<lambda>i. Set_add (parseInt i)) (relation_ids tag) s)
      (filter (\<lambda>tag. \<not> is_deleted tag \<and> Some (tenant_id tag) = tenantId) (tags m)) []"
  define rels where "rels =
    List.map_filter (\<lambda>i. case i of None \<Rightarrow> None | Some n \<Rightarrow> relationMap m n) ids"
  define tables where "tables =
    fold (\<lambda>relation s.
            Set_add (extractTableName (dst_table relation))
              (Set_add (extractTableName (src_table relation)) s)) rels []"
  have res: "fst (getDataByTenant tenantId m) =
      \<lparr>nodes = filter (\<lambda>node. n_id node \<in> set tables) (nodes m),
       links = filter (\<lambda>link. Some (relationId link) \<in> set ids) (links m),
       colorMap = colorMap m\<rparr>"
  proof -
    from False obtain t where "tenantId = Some t" "t \<noteq> []" by auto
    then show ?thesis
      by (simp add: getDataByTenant_def Let_def ids_def rels_def tables_def)
  qed
  from l have lm: "l \<in> set (links m)" and lid: "Some (relationId l) \<in> set ids"
    by (simp_all add: res)
  from ok [OF lm] obtain r where r: "relationMap m (relationId l) = Some r"
    "source l \<in> set (nodes m)" "n_id (source l) = extractTableName (src_table r)"
    "target l \<in> set (nodes m)" "n_id (target l) = extractTableName (dst_table r)"
    by blast
  have "r \<in> set rels"
    unfolding rels_def using lid by (rule map_filter_member) (simp add: r(1))
  then have "extractTableName (src_table r) \<in> set tables"
    and "extractTableName (dst_table r) \<in> set tables"
    unfolding tables_def set_fold_tables by auto
  with r show ?thesis by (simp add: res)
qed

lemma getDataByTenant_subseq:
  "subseq (nodes (fst (getDataByTenant tenantId m))) (nodes m) \<and>
   subseq (links (fst (getDataByTenant tenantId m))) (links m)"
  by (simp add: getDataByTenant_def getAllData_def Let_def)

text \<open>
  C5: on the model that \<open>processData\<close> builds, for every tenant id, the nodes that
  \<open>getDataByTenant\<close> returns are a subsequence of the full node list, the links a
  subsequence of the full link list, and the source node and the target node of every
  returned link are among the returned nodes.
\<close>

theorem getDataByTenant_subgraph:
  assumes "processData this = Inr m"
  shows "subseq (nodes (fst (getDataByTenant tenantId m))) (nodes m) \<and>
         subseq (links (fst (getDataByTenant tenantId m))) (links m) \<and>
         (\<forall>l\<in>set (links (fst (getDataByTenant tenantId m))).
            source l \<in> set (nodes (fst (getDataByTenant tenantId m))) \<and>
            target l \<in> set (nodes (fst (getDataByTenant tenantId m))))"
proof -
  from assms have b: "buildLinks (prepared this) = Inr m"
    by (simp add: processData_prepared)
  from tags_buildLinks [OF b]
  have same: "nodes m = nodes (prepared this)" "relationMap m = relationMap (prepared this)"
    by simp_all
  have ok: "\<exists>r. relationMap m (relationId l) = Some r \<and>
           source l \<in> set (nodes m) \<and> n_id (source l) = extractTableName (src_table r) \<and>
           target l \<in> set (nodes m) \<and> n_id (target l) = extractTableName (dst_table r)"
    if "l \<in> set (links m)" for l
    using link_ok_endpoints [OF buildLinks_links_ok [OF b that]] same by simp
  from getDataByTenant_endpoints [of m, OF ok] getDataByTenant_subseq [of tenantId m]
  show ?thesis by blast
qed

theorem getDataByTenant_subgraph_witness:
  "processData (constructor\<lparr>tags := [ex_tag], relations := [ex_relation1, ex_relation2]\<rparr>) = Inr ex_model \<and>
   subseq (nodes (fst (getDataByTenant (Some ''x'') ex_model))) (nodes ex_model) \<and>
   subseq (links (fst (getDataByTenant (Some ''x'') ex_model))) (links ex_model) \<and>
   links (fst (getDataByTenant (Some ''x'') ex_model)) = [ex_link1, ex_link2] \<and>
   source ex_link1 \<in> set (nodes (fst (getDataByTenant (Some ''x'') ex_model))) \<and>
   target ex_link1 \<in> set (nodes (fst (getDataByTenant (Some ''x'') ex_model))) \<and>
   source ex_link2 \<in> set (nodes (fst (getDataByTenant (Some ''x'') ex_model))) \<and>
   target ex_link2 \<in> set (nodes (fst (getDataByTenant (Some ''x'') ex_model))) \<and>
   links (fst (getDataByTenant (Some ''y'') ex_model)) = []"
proof -
  have p: "processData (constructor\<lparr>tags := [ex_tag], relations := [ex_relation1, ex_relation2]\<rparr>) = Inr ex_model"
    using ex_model_built by (simp add: loadData_def)
  have x: "links (fst (getDataByTenant (Some ''x'') ex_model)) = [ex_link1, ex_link2]"
    by (simp add: getDataByTenant_def ex_model_def ex_tag_def ex_link1_def ex_link2_def
        Set_add_def parseInt_1 parseInt_2 Let_def)
  have y: "links (fst (getDataByTenant (Some ''y'') ex_model)) = []"
    by (simp add: getDataByTenant_def ex_model_def ex_tag_def Let_def)
  from getDataByTenant_subgraph [OF p, of "Some ''x''"] p x y show ?thesis by simp
qed

section \<open>Empty inputs, and the keys of the offset counter\<close>

lemma extract_hy:
  "extractTableName ''s.a-b'' = ''a-b''" "extractTableName ''s.c'' = ''c''"
  "extractTableName ''s.a'' = ''a''" "extractTableName ''s.b-c'' = ''b-c''"
  by code_simp+


















text \<open>
  C3 at the tables \<open>a-b\<close>, \<open>c\<close> and \<open>a\<close>, \<open>b-c\<close>: the two links join different pairs
  of nodes, both pairs give the key \<open>a-b-c\<close>, and the second link gets offset 1.
\<close>

theorem buildLinks_offset_key_collision:
  "loadData (Parsed [ex_tag]) (Parsed [hy_relation1, hy_relation2]) constructor = Inr hy_model \<and>
   links hy_model = [hy_link1, hy_link2] \<and>
   n_id (source hy_link1) = ''a-b'' \<and> n_id (target hy_link1) = ''c'' \<and>
   n_id (source hy_link2) = ''a'' \<and> n_id (target hy_link2) = ''b-c'' \<and>
   offset hy_link1 = 0 \<and> offset hy_link2 = 1"
  by (simp add: loadData_def processData_def constructor_def assignColors_def buildNodes_def
      buildLinks_def hy_model_def ex_tag_def hy_relation1_def hy_relation2_def hy_node_def
      hy_link1_def hy_link2_def uniqueTags_def new_Set_def Set_add_def colors_def
      enumerate_eq_zip node_step_def nodeMap_ensure_def nodeMap_has_def nodeMap_push_def
      extract_hy tag_step_def link_step_def parseInt_1 parseInt_2 toString_1 toString_2
      relatedTags_def nextOffset_def make_link_def Let_def)

section \<open>Colour assignment\<close>

lemma length_colors: "length colors = 20"
  by (simp add: colors_def)

lemma colorMap_assignColors: "colorMap (assignColors this) = painted (tags this) (colorMap this)"
  by (simp add: assignColors_def painted_def paint_def)

lemma fold_paint_other:
  "k \<notin> snd ` set kvs \<Longrightarrow> fold paint kvs cm k = cm k"
  by (induction kvs arbitrary: cm) (auto simp: paint_def)

lemma fold_paint_member:
  "distinct (map snd kvs) \<Longrightarrow> (i, k) \<in> set kvs \<Longrightarrow>
     fold paint kvs cm k = Some (colors ! (i mod length colors))"
proof (induction kvs arbitrary: cm)
  case Nil
  then show ?case by simp
next
  case (Cons a kvs)
  show ?case
  proof (cases "(i, k) \<in> set kvs")
    case True
    with Cons show ?thesis by simp
  next
    case False
    with Cons.prems(2) have a: "a = (i, k)" by simp
    from Cons.prems(1) have "snd a \<notin> snd ` set kvs" by simp
    with a have "k \<notin> snd ` set kvs" by simp
    from fold_paint_other [OF this] a show ?thesis by (simp add: paint_def)
  qed
qed

lemma distinct_uniqueTags: "distinct (uniqueTags ts)"
  by (simp add: uniqueTags_def distinct_new_Set)

lemma set_uniqueTags: "set (uniqueTags ts) = tag_name ` set ts"
  by (simp add: uniqueTags_def set_new_Set)

lemma painted_nth:
  assumes "i < length (uniqueTags ts)"
  shows "painted ts cm (uniqueTags ts ! i) = Some (colors ! (i mod 20))"
proof -
  let ?kvs = "enumerate 0 (uniqueTags ts)"
  have d: "distinct (map snd ?kvs)" by (simp add: distinct_uniqueTags)
  have "?kvs ! i = (i, uniqueTags ts ! i)" using assms by (simp add: nth_enumerate_eq)
  moreover have "i < length ?kvs" using assms by simp
  ultimately have "(i, uniqueTags ts ! i) \<in> set ?kvs" by (metis nth_mem)
  from fold_paint_member [OF d this] show ?thesis by (simp add: painted_def length_colors)
qed

lemma painted_idem: "painted ts (painted ts cm) = painted ts cm"
proof
  fix k
  show "painted ts (painted ts cm) k = painted ts cm k"
  proof (cases "k \<in> set (uniqueTags ts)")
    case True
    then obtain i where "i < length (uniqueTags ts)" "uniqueTags ts ! i = k"
      by (auto simp: in_set_conv_nth)
    with painted_nth [of i ts] show ?thesis by metis
  next
    case False
    then have "k \<notin> snd ` set (enumerate 0 (uniqueTags ts))"
      by (metis map_snd_enumerate set_map)
    then show ?thesis by (simp add: painted_def fold_paint_other)
  qed
qed

lemma new_Set_snoc: "new_Set (xs @ [x]) = Set_add x (new_Set xs)"
  by (simp add: new_Set_def)

lemma new_Set_order:
  "i < j \<Longrightarrow> j < length (new_Set xs) \<Longrightarrow>
     \<exists>k<length xs. xs ! k = new_Set xs ! i \<and> new_Set xs ! j \<notin> set (take k xs)"
proof (induction xs arbitrary: i j rule: rev_induct)
  case Nil
  then show ?case by (simp add: new_Set_def)
next
  case (snoc x xs)
  show ?case
  proof (cases "x \<in> set (new_Set xs)")
    case True
    then have eq: "new_Set (xs @ [x]) = new_Set xs"
      by (simp add: new_Set_snoc Set_add_def)
    with snoc.prems have "j < length (new_Set xs)" by simp
    from snoc.IH [OF snoc.prems(1) this] obtain k where
      k: "k < length xs" "xs ! k = new_Set xs ! i" "new_Set xs ! j \<notin> set (take k xs)"
      by blast
    then have "k < length (xs @ [x]) \<and> (xs @ [x]) ! k = new_Set (xs @ [x]) ! i \<and>
        new_Set (xs @ [x]) ! j \<notin> set (take k (xs @ [x]))"
      by (simp add: eq nth_append)
    then show ?thesis by blast
  next
    case False
    then have eq: "new_Set (xs @ [x]) = new_Set xs @ [x]"
      by (simp add: new_Set_snoc Set_add_def)
    show ?thesis
    proof (cases "j < length (new_Set xs)")
      case True
      from snoc.IH [OF snoc.prems(1) this] obtain k where
        k: "k < length xs" "xs ! k = new_Set xs ! i" "new_Set xs ! j \<notin> set (take k xs)"
        by blast
      with True snoc.prems(1) have "k < length (xs @ [x]) \<and>
          (xs @ [x]) ! k = new_Set (xs @ [x]) ! i \<and>
          new_Set (xs @ [x]) ! j \<notin> set (take k (xs @ [x]))"
        by (simp add: eq nth_append)
      then show ?thesis by blast
    next
      case False
      with snoc.prems have j: "j = length (new_Set xs)" and i: "i < length (new_Set xs)"
        by (simp_all add: eq)
      from i have "new_Set xs ! i \<in> set xs"
        using set_new_Set [of xs] nth_mem by blast
      then obtain k where k: "k < length xs" "xs ! k = new_Set xs ! i"
        by (auto simp: in_set_conv_nth)
      have "x \<notin> set xs" using \<open>x \<notin> set (new_Set xs)\<close> by (simp add: set_new_Set)
      then have "x \<notin> set (take k xs)" by (meson in_set_takeD)
      with k i j have "k < length (xs @ [x]) \<and>
          (xs @ [x]) ! k = new_Set (xs @ [x]) ! i \<and>
          new_Set (xs @ [x]) ! j \<notin> set (take k (xs @ [x]))"
        by (simp add: eq nth_append)
      then show ?thesis by blast
    qed
  qed
qed

lemma uniqueTags_order:
  assumes "i < j" and "j < length (uniqueTags ts)"
  shows "\<exists>k<length ts. tag_name (ts ! k) = uniqueTags ts ! i \<and>
           uniqueTags ts ! j \<notin> set (map tag_name (take k ts))"
proof -
  from new_Set_order [of i j "map tag_name ts"] assms obtain k where
    "k < length ts" "map tag_name ts ! k = uniqueTags ts ! i"
    "uniqueTags ts ! j \<notin> set (take k (map tag_name ts))"
    by (auto simp: uniqueTags_def)
  then show ?thesis by (auto simp: take_map)
qed

lemma processData_colorMap:
  assumes "processData this = Inr m"
  shows "colorMap m = painted (tags this) (colorMap this)" and "tags m = tags this"
  using tags_buildLinks [of "prepared this" m] assms
  by (simp_all add: processData_prepared prepared_fields colorMap_assignColors)

lemma colorMap_getDataByTenant: "colorMap (fst (getDataByTenant tenantId this)) = colorMap this"
  by (simp add: getDataByTenant_def getAllData_def Let_def)

lemma uniqueTags_four: "uniqueTags four_tags = [''a'', ''b'', ''c'']"
  by (simp add: uniqueTags_def four_tags_def named_tag_def new_Set_def Set_add_def)

lemma uniqueTags_fourteen:
  "uniqueTags fourteen_tags =
     [''a'', ''b'', ''c'', ''d'', ''e'', ''f'', ''g'', ''h'', ''i'', ''j'', ''k'', ''l'', ''m'', ''n'']"
  by (simp add: uniqueTags_def fourteen_tags_def named_tag_def new_Set_def Set_add_def)

lemma assignColors_painted:
  "assignColors this = this\<lparr>colorMap := painted (tags this) (colorMap this)\<rparr>"
  by (simp add: assignColors_def painted_def paint_def)

text \<open>
  C7: the palette has 20 entries. \<open>uniqueTags\<close> lists the \<open>tag_name\<close> values of all tags,
  deleted or not, without repetition and in the order of their first occurrence: of two
  names in the list, the earlier one occurs in the tag sequence at a position before
  which the later one does not occur. \<open>assignColors\<close> gives the name at index \<open>i\<close> the
  palette entry at index \<open>i mod 20\<close>. The colours are a function of the tags alone:
  running \<open>assignColors\<close> again, or \<open>processData\<close> again on the model it built, leaves
  the colour map as it is, and \<open>getDataByTenant\<close> returns the colour map of the model.
\<close>

theorem assignColors_first_occurrence_palette:
  "length colors = 20 \<and>
   distinct (uniqueTags (tags this)) \<and>
   set (uniqueTags (tags this)) = tag_name ` set (tags this) \<and>
   (\<forall>i j. i < j \<and> j < length (uniqueTags (tags this)) \<longrightarrow>
      (\<exists>k<length (tags this). tag_name (tags this ! k) = uniqueTags (tags this) ! i \<and>
         uniqueTags (tags this) ! j \<notin> set (map tag_name (take k (tags this))))) \<and>
   (\<forall>i<length (uniqueTags (tags this)).
      colorMap (assignColors this) (uniqueTags (tags this) ! i) = Some (colors ! (i mod 20))) \<and>
   assignColors (assignColors this) = assignColors this \<and>
   (\<forall>m. processData this = Inr m \<longrightarrow>
      colorMap m = colorMap (assignColors this) \<and>
      (\<forall>m'. processData m = Inr m' \<longrightarrow> colorMap m' = colorMap m)) \<and>
   colorMap (fst (getDataByTenant tenantId this)) = colorMap this"
proof -
  have order: "\<forall>i j. i < j \<and> j < length (uniqueTags (tags this)) \<longrightarrow>
      (\<exists>k<length (tags this). tag_name (tags this ! k) = uniqueTags (tags this) ! i \<and>
         uniqueTags (tags this) ! j \<notin> set (map tag_name (take k (tags this))))"
    using uniqueTags_order [of _ _ "tags this"] by blast
  have pal: "\<forall>i<length (uniqueTags (tags this)).
      colorMap (assignColors this) (uniqueTags (tags this) ! i) = Some (colors ! (i mod 20))"
    by (simp add: colorMap_assignColors painted_nth)
  have idem: "assignColors (assignColors this) = assignColors this"
    by (simp add: assignColors_painted painted_idem)
  have again: "\<forall>m. processData this = Inr m \<longrightarrow>
      colorMap m = colorMap (assignColors this) \<and>
      (\<forall>m'. processData m = Inr m' \<longrightarrow> colorMap m' = colorMap m)"
  proof (intro allI impI conjI)
    fix m
    assume m: "processData this = Inr m"
    from processData_colorMap [OF m]
    show "colorMap m = colorMap (assignColors this)" by (simp add: colorMap_assignColors)
    fix m'
    assume "processData m = Inr m'"
    from processData_colorMap(1) [OF this] processData_colorMap [OF m]
    show "colorMap m' = colorMap m" by (simp add: painted_idem)
  qed
  from length_colors distinct_uniqueTags [of "tags this"] set_uniqueTags [of "tags this"]
    order pal idem again colorMap_getDataByTenant [of tenantId this]
  show ?thesis by blast
qed

theorem assignColors_first_occurrence_palette_witness:
  "uniqueTags (tags (constructor\<lparr>tags := four_tags\<rparr>)) = [''a'', ''b'', ''c''] \<and>
   colorMap (assignColors (constructor\<lparr>tags := four_tags\<rparr>)) ''a'' = Some ''#FF6B6B'' \<and>
   colorMap (assignColors (constructor\<lparr>tags := four_tags\<rparr>)) ''b'' = Some ''#4ECDC4'' \<and>
   colorMap (assignColors (constructor\<lparr>tags := four_tags\<rparr>)) ''c'' = Some ''#45B7D1'' \<and>
   assignColors (assignColors (constructor\<lparr>tags := four_tags\<rparr>)) =
     assignColors (constructor\<lparr>tags := four_tags\<rparr>) \<and>
   colorMap (fst (getDataByTenant (Some ''x'') (constructor\<lparr>tags := four_tags\<rparr>))) =
     colorMap (constructor\<lparr>tags := four_tags\<rparr>)"
proof -
  let ?dp = "constructor\<lparr>tags := four_tags\<rparr>"
  have u: "uniqueTags (tags ?dp) = [''a'', ''b'', ''c'']" by (simp add: uniqueTags_four)
  note t = assignColors_first_occurrence_palette [of ?dp "Some ''x''"]
  from t have pal: "\<forall>i<length (uniqueTags (tags ?dp)).
      colorMap (assignColors ?dp) (uniqueTags (tags ?dp) ! i) = Some (colors ! (i mod 20))"
    by blast
  from pal [rule_format, of 0] pal [rule_format, of 1] pal [rule_format, of 2]
  have c: "colorMap (assignColors ?dp) ''a'' = Some ''#FF6B6B''"
    "colorMap (assignColors ?dp) ''b'' = Some ''#4ECDC4''"
    "colorMap (assignColors ?dp) ''c'' = Some ''#45B7D1''"
    by (simp_all add: uniqueTags_four colors_def)
  from t u c show ?thesis by blast
qed

text \<open>
  C10: entries 9 and 13 of the palette are the same colour \<open>#85C1E9\<close>, so whenever the
  tags have at least 14 distinct names, the 10th and the 14th of them in first-occurrence
  order, two different names, get the same colour.
\<close>

theorem assignColors_duplicate_colour:
  assumes "14 \<le> length (uniqueTags (tags this))"
  shows "colors ! 9 = ''#85C1E9'' \<and> colors ! 13 = ''#85C1E9'' \<and>
         uniqueTags (tags this) ! 9 \<noteq> uniqueTags (tags this) ! 13 \<and>
         colorMap (assignColors this) (uniqueTags (tags this) ! 9) = Some ''#85C1E9'' \<and>
         colorMap (assignColors this) (uniqueTags (tags this) ! 13) = Some ''#85C1E9''"
proof -
  have c: "colors ! 9 = ''#85C1E9''" "colors ! 13 = ''#85C1E9''"
    by (simp_all add: colors_def)
  from assms have l: "9 < length (uniqueTags (tags this))" "13 < length (uniqueTags (tags this))"
    by simp_all
  from distinct_uniqueTags [of "tags this"] l
  have d: "uniqueTags (tags this) ! 9 \<noteq> uniqueTags (tags this) ! 13"
    by (simp add: nth_eq_iff_index_eq)
  from painted_nth [OF l(1), of "colorMap this"] painted_nth [OF l(2), of "colorMap this"]
  have "colorMap (assignColors this) (uniqueTags (tags this) ! 9) = Some ''#85C1E9''"
    "colorMap (assignColors this) (uniqueTags (tags this) ! 13) = Some ''#85C1E9''"
    by (simp_all add: colorMap_assignColors c)
  with c d show ?thesis by blast
qed

theorem assignColors_duplicate_colour_witness:
  "14 \<le> length (uniqueTags (tags (constructor\<lparr>tags := fourteen_tags\<rparr>))) \<and>
   uniqueTags (tags (constructor\<lparr>tags := fourteen_tags\<rparr>)) ! 9 = ''j'' \<and>
   uniqueTags (tags (constructor\<lparr>tags := fourteen_tags\<rparr>)) ! 13 = ''n'' \<and>
   colorMap (assignColors (constructor\<lparr>tags := fourteen_tags\<rparr>)) ''j'' = Some ''#85C1E9'' \<and>
   colorMap (assignColors (constructor\<lparr>tags := fourteen_tags\<rparr>)) ''n'' = Some ''#85C1E9''"
proof -
  let ?dp = "constructor\<lparr>tags := fourteen_tags\<rparr>"
  have u: "uniqueTags (tags ?dp) =
     [''a'', ''b'', ''c'', ''d'', ''e'', ''f'', ''g'', ''h'', ''i'', ''j'', ''k'', ''l'', ''m'', ''n'']"
    by (simp add: uniqueTags_fourteen)
  have h: "14 \<le> length (uniqueTags (tags ?dp))" by (simp add: uniqueTags_fourteen)
  have n: "uniqueTags (tags ?dp) ! 9 = ''j''" "uniqueTags (tags ?dp) ! 13 = ''n''"
    by (simp_all add: uniqueTags_fourteen)
  from assignColors_duplicate_colour [OF h] h n show ?thesis by simp
qed

section \<open>Tenants\<close>

lemma fold_tenants:
  "set (fold (\<lambda>tag tenants.
               if \<not> is_deleted tag \<and> tenant_id tag \<noteq> [] then Set_add (tenant_id tag) tenants
               else tenants) ts acc) =
     set acc \<union> {tenant_id t | t. t \<in> set ts \<and> \<not> is_deleted t \<and> tenant_id t \<noteq> []}"
  by (induction ts arbitrary: acc) (auto simp: Set_add_def)

lemma distinct_fold_tenants:
  "distinct acc \<Longrightarrow>
   distinct (fold (\<lambda>tag tenants.
               if \<not> is_deleted tag \<and> tenant_id tag \<noteq> [] then Set_add (tenant_id tag) tenants
               else tenants) ts acc)"
  by (induction ts arbitrary: acc) (auto simp: Set_add_def)

text \<open>
  C8, as the code has it: \<open>getAvailableTenants\<close> returns, sorted ascending in the order of
  strings by code unit and without repetition, exactly the non-empty \<open>tenant_id\<close> values
  of the non-deleted tags.
\<close>

theorem getAvailableTenants_sorted_distinct:
  "sorted (getAvailableTenants this) \<and> distinct (getAvailableTenants this) \<and>
   set (getAvailableTenants this) =
     {tenant_id t | t. t \<in> set (tags this) \<and> \<not> is_deleted t \<and> tenant_id t \<noteq> []}"
  by (simp add: getAvailableTenants_def fold_tenants distinct_fold_tenants)

theorem getAvailableTenants_sorted_distinct_witness:
  "getAvailableTenants (constructor\<lparr>tags := tenant_tags\<rparr>) = [''t1'', ''t2''] \<and>
   sorted (getAvailableTenants (constructor\<lparr>tags := tenant_tags\<rparr>)) \<and>
   distinct (getAvailableTenants (constructor\<lparr>tags := tenant_tags\<rparr>)) \<and>
   set (getAvailableTenants (constructor\<lparr>tags := tenant_tags\<rparr>)) =
     {tenant_id t | t. t \<in> set (tags (constructor\<lparr>tags := tenant_tags\<rparr>)) \<and>
        \<not> is_deleted t \<and> tenant_id t \<noteq> []}"
proof -
  have "getAvailableTenants (constructor\<lparr>tags := tenant_tags\<rparr>) = [''t1'', ''t2'']"
    by (simp add: getAvailableTenants_def tenant_tags_def named_tag_def Set_add_def)
  with getAvailableTenants_sorted_distinct [of "constructor\<lparr>tags := tenant_tags\<rparr>"]
  show ?thesis by blast
qed

text \<open>
  C8 as stated fails on a non-deleted tag whose \<open>tenant_id\<close> is the empty string: the
  empty id occurs on a non-deleted tag and is not returned.
\<close>

theorem getAvailableTenants_counterexample:
  "getAvailableTenants (constructor\<lparr>tags := [named_tag ''n'' False\<lparr>tenant_id := ''''\<rparr>]\<rparr>) = [] \<and>
   \<not> is_deleted (named_tag ''n'' False\<lparr>tenant_id := ''''\<rparr>) \<and>
   tenant_id (named_tag ''n'' False\<lparr>tenant_id := ''''\<rparr>) = ''''"
  by (simp add: getAvailableTenants_def named_tag_def)

section \<open>Offsets when no table name contains a hyphen\<close>

lemma edgeKey_inject:
  assumes "hyphen_free s" and "hyphen_free s'"
  shows "edgeKey s d = edgeKey s' d' \<longleftrightarrow> s = s' \<and> d = d'"
proof
  assume eq: "edgeKey s d = edgeKey s' d'"
  have "takeWhile (\<lambda>c. c \<noteq> CHR ''-'') (s @ CHR ''-'' # d) = s"
    using assms(1) by (auto simp: hyphen_free_def takeWhile_tail)
  moreover have "takeWhile (\<lambda>c. c \<noteq> CHR ''-'') (s' @ CHR ''-'' # d') = s'"
    using assms(2) by (auto simp: hyphen_free_def takeWhile_tail)
  ultimately have "s = s'" using eq by (simp add: edgeKey_def)
  with eq show "s = s' \<and> d = d'" by (simp add: edgeKey_def)
qed simp

lemma nextOffset_edgeKey:
  "nextOffset s d ec =
     (case ec (edgeKey s d) of
        Some c \<Rightarrow> (c, ec(edgeKey s d \<mapsto> c + 1))
      | None \<Rightarrow>
          (case ec (edgeKey d s) of
             Some c \<Rightarrow> (c, ec(edgeKey d s \<mapsto> c + 1))
           | None \<Rightarrow> (0, ec(edgeKey s d \<mapsto> 1))))"
  by (simp add: nextOffset_def edgeKey_def Let_def cong: option.case_cong)

lemma fst_nextOffset: "fst (nextOffset s d ec) = pairCount ec s d"
  by (simp add: nextOffset_edgeKey pairCount_def split: option.split)

lemma snd_nextOffset_disj:
  "snd (nextOffset s d ec) = ec(edgeKey s d \<mapsto> pairCount ec s d + 1) \<and>
     (ec (edgeKey s d) = None \<longrightarrow> ec (edgeKey d s) = None) \<or>
   snd (nextOffset s d ec) = ec(edgeKey d s \<mapsto> pairCount ec s d + 1) \<and>
     ec (edgeKey s d) = None \<and> ec (edgeKey d s) \<noteq> None"
  by (cases "ec (edgeKey s d)"; cases "ec (edgeKey d s)")
     (simp_all add: nextOffset_edgeKey pairCount_def)

lemma pairCount_upd_same: "pairCount (ec(edgeKey s d \<mapsto> v)) s d = v"
  by (simp add: pairCount_def)

lemma pairCount_upd_swap:
  assumes "ec (edgeKey d s) = None"
  shows "pairCount (ec(edgeKey s d \<mapsto> v)) d s = v"
proof (cases "edgeKey d s = edgeKey s d")
  case True
  then show ?thesis by (simp add: pairCount_def)
next
  case False
  with assms show ?thesis by (simp add: pairCount_def cong: option.case_cong)
qed

lemma pairCount_upd_other:
  assumes "edgeKey s' d' \<noteq> edgeKey s d" and "edgeKey d' s' \<noteq> edgeKey s d"
  shows "pairCount (ec(edgeKey s d \<mapsto> v)) s' d' = pairCount ec s' d'"
  using assms by (simp add: pairCount_def cong: option.case_cong)

lemma one_keyD:
  "one_key ec \<Longrightarrow> hyphen_free s \<Longrightarrow> hyphen_free d \<Longrightarrow> s \<noteq> d \<Longrightarrow>
     ec (edgeKey s d) = None \<or> ec (edgeKey d s) = None"
  by (simp add: one_key_def)

lemma pairCount_upd:
  assumes "hyphen_free s" and "hyphen_free d" and "hyphen_free s'" and "hyphen_free d'"
    and rev_none: "s \<noteq> d \<Longrightarrow> ec (edgeKey d s) = None"
  shows "pairCount (ec(edgeKey s d \<mapsto> pairCount ec s d + 1)) s' d' =
           pairCount ec s' d' + (if s' = s \<and> d' = d \<or> s' = d \<and> d' = s then 1 else 0)"
proof (cases "s' = s \<and> d' = d")
  case True
  then show ?thesis by (simp add: pairCount_upd_same)
next
  case notfwd: False
  show ?thesis
  proof (cases "s' = d \<and> d' = s")
    case True
    with notfwd have sd: "s \<noteq> d" by auto
    have n: "ec (edgeKey d s) = None" using rev_none sd by simp
    have "pairCount (ec(edgeKey s d \<mapsto> pairCount ec s d + 1)) d s = pairCount ec s d + 1"
      using n by (simp add: pairCount_upd_swap)
    moreover have "pairCount ec d s = pairCount ec s d"
      using n by (simp add: pairCount_def split: option.split)
    ultimately show ?thesis using True sd by simp
  next
    case False
    have k1: "edgeKey s' d' \<noteq> edgeKey s d"
      using notfwd assms(1,3) by (simp add: edgeKey_inject)
    have k2: "edgeKey d' s' \<noteq> edgeKey s d"
      using False assms(1,4) by (auto simp: edgeKey_inject)
    have "pairCount (ec(edgeKey s d \<mapsto> pairCount ec s d + 1)) s' d' = pairCount ec s' d'"
      using k1 k2 by (simp add: pairCount_upd_other)
    then show ?thesis using notfwd False by simp
  qed
qed

lemma pairCount_nextOffset:
  assumes "hyphen_free s" and "hyphen_free d" and "hyphen_free s'" and "hyphen_free d'"
    and "one_key ec"
  shows "pairCount (snd (nextOffset s d ec)) s' d' =
           pairCount ec s' d' + (if s' = s \<and> d' = d \<or> s' = d \<and> d' = s then 1 else 0)"
  using snd_nextOffset_disj [of s d ec]
proof (elim disjE conjE)
  assume fwd: "snd (nextOffset s d ec) = ec(edgeKey s d \<mapsto> pairCount ec s d + 1)"
    and some: "ec (edgeKey s d) = None \<longrightarrow> ec (edgeKey d s) = None"
  have "ec (edgeKey d s) = None" if "s \<noteq> d"
    using some one_keyD [OF assms(5,1,2) that] by auto
  from pairCount_upd [where ec = ec, OF assms(1-4) this] show ?thesis
    unfolding fwd by simp
next
  assume bwd: "snd (nextOffset s d ec) = ec(edgeKey d s \<mapsto> pairCount ec s d + 1)"
    and none: "ec (edgeKey s d) = None" and some: "ec (edgeKey d s) \<noteq> None"
  have c: "pairCount ec s d = pairCount ec d s"
    using none by (simp add: pairCount_def split: option.split)
  from pairCount_upd [where ec = ec, OF assms(2,1,3,4)] none have
    "pairCount (ec(edgeKey d s \<mapsto> pairCount ec d s + 1)) s' d' =
       pairCount ec s' d' + (if s' = d \<and> d' = s \<or> s' = s \<and> d' = d then 1 else 0)"
    by simp
  then show ?thesis unfolding bwd c by (simp add: disj_commute)
qed

lemma one_key_upd:
  assumes "hyphen_free s" and "hyphen_free d" and "one_key ec"
    and rev_none: "s \<noteq> d \<Longrightarrow> ec (edgeKey d s) = None"
  shows "one_key (ec(edgeKey s d \<mapsto> v))"
  unfolding one_key_def
proof (intro allI impI)
  fix s' d'
  assume h: "hyphen_free s'" "hyphen_free d'" "s' \<noteq> d'"
  from one_keyD [OF assms(3) h]
  have old: "ec (edgeKey s' d') = None \<or> ec (edgeKey d' s') = None" .
  show "(ec(edgeKey s d \<mapsto> v)) (edgeKey s' d') = None \<or>
        (ec(edgeKey s d \<mapsto> v)) (edgeKey d' s') = None"
  proof (cases "s' = s \<and> d' = d")
    case True
    with h(3) rev_none assms(1,2) show ?thesis by (simp add: edgeKey_inject)
  next
    case notfwd: False
    show ?thesis
    proof (cases "s' = d \<and> d' = s")
      case True
      with h(3) rev_none assms(1,2) show ?thesis by (simp add: edgeKey_inject)
    next
      case False
      have k1: "edgeKey s' d' \<noteq> edgeKey s d"
        using notfwd assms(1) h(1) by (simp add: edgeKey_inject)
      have k2: "edgeKey d' s' \<noteq> edgeKey s d"
        using False assms(1) h(2) by (auto simp: edgeKey_inject)
      from old k1 k2 show ?thesis by simp
    qed
  qed
qed

lemma one_key_nextOffset:
  assumes "hyphen_free s" and "hyphen_free d" and "one_key ec"
  shows "one_key (snd (nextOffset s d ec))"
  using snd_nextOffset_disj [of s d ec]
proof (elim disjE conjE)
  assume fwd: "snd (nextOffset s d ec) = ec(edgeKey s d \<mapsto> pairCount ec s d + 1)"
    and some: "ec (edgeKey s d) = None \<longrightarrow> ec (edgeKey d s) = None"
  have "ec (edgeKey d s) = None" if "s \<noteq> d"
    using some one_keyD [OF assms(3,1,2) that] by auto
  from one_key_upd [where ec = ec, OF assms this] show ?thesis unfolding fwd by simp
next
  assume bwd: "snd (nextOffset s d ec) = ec(edgeKey d s \<mapsto> pairCount ec s d + 1)"
    and none: "ec (edgeKey s d) = None" and some: "ec (edgeKey d s) \<noteq> None"
  from one_key_upd [where ec = ec, OF assms(2,1,3)] none show ?thesis unfolding bwd by simp
qed

lemma count_inv_init: "count_inv init_state"
  by (simp add: count_inv_def init_state_def one_key_def pairCount_def offsets_ok_def)

lemma offsets_ok_snoc:
  assumes "offsets_ok ls" and "offset l = length (filter (same_pair l) ls)"
  shows "offsets_ok (ls @ [l])"
  unfolding offsets_ok_def
proof (intro allI impI)
  fix i
  assume "i < length (ls @ [l])"
  then consider "i < length ls" | "i = length ls" by fastforce
  then show "offset ((ls @ [l]) ! i) =
      length (filter (same_pair ((ls @ [l]) ! i)) (take i (ls @ [l])))"
  proof cases
    case 1
    with assms(1) show ?thesis by (simp add: offsets_ok_def nth_append)
  next
    case 2
    with assms(2) show ?thesis by simp
  qed
qed

lemma count_inv_step:
  assumes tables: "hyphen_free_tables this" and inv: "count_inv st"
    and step: "link_step this e st = Inr st'"
  shows "count_inv st'"
  using step
proof (cases rule: link_step_cases)
  case skip
  with inv show ?thesis by simp
next
  case (emit n r a b p ps)
  define s where "s = extractTableName (src_table r)"
  define d where "d = extractTableName (dst_table r)"
  define ec where "ec = edgeCounts st"
  define l where "l = make_link this n r a b (p # ps) p (fst (nextOffset s d ec))"
  have hs: "hyphen_free s" and hd: "hyphen_free d"
    using tables emit(3) by (simp_all add: hyphen_free_tables_def s_def d_def)
  have ends: "n_id (source l) = s" "n_id (target l) = d"
    using find_Some_D [OF emit(4)] find_Some_D [OF emit(5)]
    by (simp_all add: l_def make_link_def s_def d_def)
  have off: "offset l = pairCount ec s d"
    by (simp add: l_def make_link_def fst_nextOffset)
  have links': "st_links st' = st_links st @ [l]"
    and ec': "edgeCounts st' = snd (nextOffset s d ec)"
    using emit(7) by (simp_all add: l_def s_def d_def ec_def)
  from inv have i1: "one_key ec"
    and i2: "\<And>s d. hyphen_free s \<Longrightarrow> hyphen_free d \<Longrightarrow>
        pairCount ec s d = length (filter (joins s d) (st_links st))"
    and i3: "offsets_ok (st_links st)"
    by (simp_all add: count_inv_def ec_def)
  have c1: "one_key (edgeCounts st')"
    unfolding ec' using hs hd i1 by (rule one_key_nextOffset)
  have c2: "pairCount (edgeCounts st') s' d' = length (filter (joins s' d') (st_links st'))"
    if h: "hyphen_free s'" "hyphen_free d'" for s' d'
  proof -
    have "joins s' d' l \<longleftrightarrow> s' = s \<and> d' = d \<or> s' = d \<and> d' = s"
      by (auto simp: joins_def ends)
    then have "length (filter (joins s' d') (st_links st')) =
        length (filter (joins s' d') (st_links st)) +
        (if s' = s \<and> d' = d \<or> s' = d \<and> d' = s then 1 else 0)"
      by (simp add: links')
    with pairCount_nextOffset [OF hs hd h i1] i2 [OF h] show ?thesis
      by (simp add: ec')
  qed
  have "same_pair l = joins s d"
    by (rule ext) (simp add: same_pair_def ends)
  with off i2 [OF hs hd] have "offset l = length (filter (same_pair l) (st_links st))"
    by simp
  with i3 have c3: "offsets_ok (st_links st')"
    unfolding links' by (rule offsets_ok_snoc)
  from c1 c2 c3 show ?thesis by (simp add: count_inv_def)
qed

lemma count_inv_forEach:
  assumes "hyphen_free_tables this"
  shows "forEach (link_step this) es init_state = Inr st \<Longrightarrow> count_inv st"
proof (induction es arbitrary: st rule: rev_induct)
  case Nil
  then show ?case using count_inv_init by simp
next
  case (snoc e es)
  then obtain st1 where "forEach (link_step this) es init_state = Inr st1"
      "link_step this e st1 = Inr st"
    by (auto simp: forEach_snoc_Inr)
  with snoc.IH assms show ?case by (blast intro: count_inv_step)
qed

text \<open>
  Where no table name of the relation map contains a hyphen, the keys of \<open>edgeCounts\<close>
  determine the pair of tables, and the offset of every link is the number of links
  before it that join the same two nodes, in either direction.
\<close>

lemma buildLinks_offsets_hyphen_free:
  assumes "hyphen_free_tables this" and "buildLinks this = Inr m" and "i < length (links m)"
  shows "offset (links m ! i) = length (filter (same_pair (links m ! i)) (take i (links m)))"
proof -
  from buildLinks_Inr [of this] obtain st where
    st: "forEach (link_step this) (entries (tags this)) init_state = Inr st"
      "buildLinks this = Inr (this\<lparr>links := st_links st\<rparr>)"
    by blast
  with assms(2) have "links m = st_links st" by auto
  with count_inv_forEach [OF assms(1) st(1)] assms(3) show ?thesis
    by (simp add: count_inv_def offsets_ok_def)
qed

end
